theory Spec2Isabelle
  imports Complex_Main "HOL-Library.AList"
begin

section \<open>Places, markers and the mapping widget\<close>

text \<open>
  The map view (\<^verbatim>\<open>src/components/Map.tsx\<close>) renders a list of places on a Leaflet map.
  A place is the \<^verbatim>\<open>TouristPlace\<close> of the places API; only the fields the component reads
  are kept. JavaScript numbers are idealised as reals: the component only stores, compares
  and passes them on. \<^verbatim>\<open>businessFeatures?.isBusinessFriendly\<close> is \<open>None\<close> when the optional
  \<^verbatim>\<open>businessFeatures\<close> is absent.
\<close>

type_synonym latlng = "real \<times> real"

record place =
  place_id :: string
  name :: string
  category :: string
  rating :: real
  location :: latlng
  businessFeatures :: "bool option"

text \<open>
  The two icons are objects made by \<^verbatim>\<open>L.divIcon\<close>; the number is the object's identity
  (React compares dependencies by identity).
\<close>

datatype variant = Default | Highlighted

datatype icon = DivIcon variant nat

fun icon_variant :: "icon \<Rightarrow> variant" where
  "icon_variant (DivIcon v n) = v"

text \<open>The popup bound to a marker shows name, category, rating and the optional badge.\<close>

record popup =
  popup_name :: string
  popup_category :: string
  popup_rating :: real
  popup_badge :: bool

record marker =
  m_latlng :: latlng
  m_icon :: icon
  m_popup :: "popup option"
  m_popupOpen :: bool

text \<open>
  The map instance keeps the markers that are on it (by handle, in the order they were
  added) and the viewport requests it received, oldest first. \<open>FitBounds\<close> carries the
  box (south-west and north-east corner) and the padding; \<open>PanTo\<close> has no zoom.
\<close>

datatype view_call =
    SetView latlng real
  | FitBounds "latlng \<times> latlng" "nat \<times> nat"
  | PanTo latlng

record map_instance =
  layers :: "nat list"
  view_calls :: "view_call list"
  tileLayer :: bool
  containerClass :: bool
  zoomControl :: bool

datatype toast = ToastError string | ToastSuccess string

datatype error = ImportFailed | WidgetError | TypeError

text \<open>
  The widget library is not part of the repository. Each of its calls that sits inside a
  \<^verbatim>\<open>try\<close> block either has its effect or throws; which one is a parameter of the model,
  so that every theorem holds for whatever the library does.
\<close>

record leaflet =
  divIcon_ok :: bool
  map_ok :: bool
  tileLayer_ok :: bool
  addClass_ok :: bool
  addControl_ok :: bool
  marker_ok :: "latlng \<Rightarrow> bool"
  fitBounds_ok :: "latlng \<times> latlng \<Rightarrow> bool"

section \<open>The state of the map view\<close>

text \<open>
  One record holds the props of the last render, the refs, the \<^verbatim>\<open>useState\<close> cells, the
  marker objects (a store from handles to markers), what the component has sent to the
  host (console, toasts, exceptions nobody caught, animation-frame requests), and the
  bookkeeping of the three effects: the dependencies of the last run, the pending
  \<^verbatim>\<open>await import("leaflet")\<close> continuations with what their closures captured, and what
  the cleanup functions would undo.

  \<^verbatim>\<open>markersRef.current\<close> is a JavaScript object used as a dictionary. It is an association
  list in insertion order: assigning to a present key keeps its position, a new key goes
  to the end, which is what \<^const>\<open>AList.update\<close> does.
\<close>

record map_state =
  places :: "place list"
  center :: latlng
  zoom :: real
  hoveredPlaceId :: "string option"
  mapRef :: bool
  mapInstanceRef :: "map_instance option"
  markersRef :: "(string \<times> nat) list"
  defaultIcon :: "icon option"
  highlightedIcon :: "icon option"
  isMapInitialized :: bool
  heap :: "nat \<Rightarrow> marker option"
  nextHandle :: nat
  nextIcon :: nat
  console :: "string list"
  toasts :: "toast list"
  uncaught :: "error list"
  frames :: "(nat \<times> string option \<times> icon \<times> icon) list"
  nextFrame :: nat
  initAttempts :: "(nat \<times> bool \<times> bool \<times> latlng \<times> real) list"
  syncCalls :: "(nat \<times> place list \<times> icon) list"
  nextTask :: nat
  initCleanup :: "nat option"
  hoverCleanup :: "nat option"
  initDeps :: "(real \<times> bool) option"
  markerDeps :: "(place list \<times> icon option \<times> bool) option"
  hoverDeps :: "(string option \<times> icon option \<times> icon option) option"

subsection \<open>Marker and map primitives\<close>

definition setIcon :: "nat \<Rightarrow> icon \<Rightarrow> map_state \<Rightarrow> map_state" where
  "setIcon h i s = s\<lparr>heap := (heap s)(h := map_option (\<lambda>m. m\<lparr>m_icon := i\<rparr>) (heap s h))\<rparr>"

definition closePopup :: "nat \<Rightarrow> map_state \<Rightarrow> map_state" where
  "closePopup h s = s\<lparr>heap := (heap s)(h := map_option (\<lambda>m. m\<lparr>m_popupOpen := False\<rparr>) (heap s h))\<rparr>"

definition openPopup :: "nat \<Rightarrow> map_state \<Rightarrow> map_state" where
  "openPopup h s = s\<lparr>heap := (heap s)(h := map_option (\<lambda>m. m\<lparr>m_popupOpen := True\<rparr>) (heap s h))\<rparr>"

text \<open>\<^verbatim>\<open>marker.remove()\<close> takes the marker off the map.\<close>

definition remove :: "nat \<Rightarrow> map_state \<Rightarrow> map_state" where
  "remove h s =
     s\<lparr>mapInstanceRef := map_option (\<lambda>m. m\<lparr>layers := removeAll h (layers m)\<rparr>) (mapInstanceRef s)\<rparr>"

text \<open>
  \<^verbatim>\<open>mapInstanceRef.current.panTo(marker.getLatLng(), ...)\<close>: a \<open>null\<close> map instance
  is a \<^verbatim>\<open>TypeError\<close> that nothing catches.
\<close>

definition panTo :: "nat \<Rightarrow> map_state \<Rightarrow> map_state" where
  "panTo h s =
     (case mapInstanceRef s of
        None \<Rightarrow> s\<lparr>uncaught := uncaught s @ [TypeError]\<rparr>
      | Some m \<Rightarrow>
          (case heap s h of
             None \<Rightarrow> s\<lparr>uncaught := uncaught s @ [TypeError]\<rparr>
           | Some mk \<Rightarrow>
               s\<lparr>mapInstanceRef := Some (m\<lparr>view_calls := view_calls m @ [PanTo (m_latlng mk)]\<rparr>)\<rparr>))"

section \<open>The hover-highlight pass\<close>

text \<open>
  \<^verbatim>\<open>highlightMarker\<close> (Map.tsx, lines 157-179). The closure holds the hover selection and
  the two icons of the render that scheduled it. \<^verbatim>\<open>id !== hoveredPlaceId\<close> is true for
  every id when the selection is \<open>null\<close>; \<^verbatim>\<open>hoveredPlaceId && ...\<close> is JavaScript
  truthiness, which the empty string fails.
\<close>

definition resetMarker :: "string option \<Rightarrow> icon \<Rightarrow> string \<times> nat \<Rightarrow> map_state \<Rightarrow> map_state" where
  "resetMarker hov dflt e s =
     (if Some (fst e) \<noteq> hov then closePopup (snd e) (setIcon (snd e) dflt s) else s)"

definition highlightMarker :: "string option \<Rightarrow> icon \<Rightarrow> icon \<Rightarrow> map_state \<Rightarrow> map_state" where
  "highlightMarker hov dflt hl s =
     (let s1 = fold (resetMarker hov dflt) (markersRef s) s in
      case hov of
        None \<Rightarrow> s1
      | Some hid \<Rightarrow>
          if hid = [] then s1
          else (case map_of (markersRef s1) hid of
                  None \<Rightarrow> s1
                | Some h \<Rightarrow> panTo h (openPopup h (setIcon h hl s1))))"

section \<open>The marker-synchronization pass\<close>

text \<open>
  \<^verbatim>\<open>updateMarkers\<close> (Map.tsx, lines 100-146) after its \<^verbatim>\<open>await\<close>: the closure holds the
  place list and the default icon of the render that called it. An exception leaves the
  state as it is at the throw; the \<open>Inl\<close> result carries that state to the \<^verbatim>\<open>catch\<close>.
\<close>

definition clearMarkers :: "map_state \<Rightarrow> map_state" where
  "clearMarkers s = (fold remove (map snd (markersRef s)) s)\<lparr>markersRef := []\<rparr>"

definition popupFor :: "place \<Rightarrow> popup" where
  "popupFor p =
     \<lparr>popup_name = name p, popup_category = category p, popup_rating = rating p,
      popup_badge = (businessFeatures p = Some True)\<rparr>"

definition newMarker :: "icon \<Rightarrow> place \<Rightarrow> marker" where
  "newMarker dflt p =
     \<lparr>m_latlng = location p, m_icon = dflt, m_popup = Some (popupFor p), m_popupOpen = False\<rparr>"

definition placeMarker :: "icon \<Rightarrow> place \<Rightarrow> map_state \<Rightarrow> map_state" where
  "placeMarker dflt p s =
     (let h = nextHandle s in
      s\<lparr>heap := (heap s)(h \<mapsto> newMarker dflt p),
        nextHandle := Suc h,
        mapInstanceRef := map_option (\<lambda>m. m\<lparr>layers := layers m @ [h]\<rparr>) (mapInstanceRef s),
        markersRef := AList.update (place_id p) h (markersRef s)\<rparr>)"

fun addMarkers :: "leaflet \<Rightarrow> icon \<Rightarrow> place list \<Rightarrow> map_state \<Rightarrow> (error \<times> map_state) + map_state" where
  "addMarkers L dflt [] s = Inr s"
| "addMarkers L dflt (p # ps) s =
     (if \<not> marker_ok L (location p) then Inl (WidgetError, s)
      else if mapInstanceRef s = None then Inl (TypeError, s)
      else addMarkers L dflt ps (placeMarker dflt p s))"

definition markerLatLngs :: "map_state \<Rightarrow> latlng list" where
  "markerLatLngs s =
     concat (map (\<lambda>e. case heap s (snd e) of None \<Rightarrow> [] | Some m \<Rightarrow> [m_latlng m]) (markersRef s))"

definition extendBounds :: "latlng \<Rightarrow> latlng \<times> latlng \<Rightarrow> latlng \<times> latlng" where
  "extendBounds p b =
     ((min (fst (fst b)) (fst p), min (snd (fst b)) (snd p)),
      (max (fst (snd b)) (fst p), max (snd (snd b)) (snd p)))"

definition getBounds :: "latlng list \<Rightarrow> (latlng \<times> latlng) option" where
  "getBounds lls = (case lls of [] \<Rightarrow> None | p # ps \<Rightarrow> Some (fold extendBounds ps (p, p)))"

definition fitBounds :: "leaflet \<Rightarrow> map_state \<Rightarrow> (error \<times> map_state) + map_state" where
  "fitBounds L s =
     (case mapInstanceRef s of
        None \<Rightarrow> Inl (TypeError, s)
      | Some m \<Rightarrow>
          (case getBounds (markerLatLngs s) of
             None \<Rightarrow> Inl (WidgetError, s)
           | Some b \<Rightarrow>
               if \<not> fitBounds_ok L b then Inl (WidgetError, s)
               else Inr (s\<lparr>mapInstanceRef :=
                            Some (m\<lparr>view_calls := view_calls m @ [FitBounds b (50, 50)]\<rparr>)\<rparr>)))"

definition updateMarkers_try ::
  "bool \<Rightarrow> leaflet \<Rightarrow> place list \<Rightarrow> icon \<Rightarrow> map_state \<Rightarrow> (error \<times> map_state) + map_state" where
  "updateMarkers_try import_ok L ps dflt s =
     (if \<not> import_ok then Inl (ImportFailed, s)
      else (case addMarkers L dflt ps (clearMarkers s) of
              Inl e \<Rightarrow> Inl e
            | Inr s' \<Rightarrow> if length ps > 0 then fitBounds L s' else Inr s'))"

definition updateMarkers_resume ::
  "bool \<Rightarrow> leaflet \<Rightarrow> place list \<Rightarrow> icon \<Rightarrow> map_state \<Rightarrow> map_state" where
  "updateMarkers_resume import_ok L ps dflt s =
     (case updateMarkers_try import_ok L ps dflt s of
        Inl e \<Rightarrow> (snd e)\<lparr>console := console (snd e) @ [''Error updating markers:'']\<rparr>
      | Inr s' \<Rightarrow> s')"

section \<open>Initialization\<close>

text \<open>
  \<^verbatim>\<open>initializeMap\<close> (Map.tsx, lines 28-89) after its \<^verbatim>\<open>await\<close>. \<open>isMounted\<close> is the local
  variable of the effect run that started the attempt (its cleanup sets it to false);
  \<open>initialized\<close> is \<^verbatim>\<open>isMapInitialized\<close> as the closure captured it at that render.
  The state setters are applied at once: nothing reads the cells before the next render.
\<close>

definition initializeMap_try ::
  "bool \<Rightarrow> leaflet \<Rightarrow> bool \<Rightarrow> bool \<Rightarrow> latlng \<Rightarrow> real \<Rightarrow> map_state \<Rightarrow> (error \<times> map_state) + map_state" where
  "initializeMap_try import_ok L isMounted initialized c z s =
     (if \<not> import_ok then Inl (ImportFailed, s)
      else if \<not> isMounted \<or> \<not> mapRef s \<or> initialized then Inr s
      else if \<not> divIcon_ok L then Inl (WidgetError, s)
      else
        (let s1 = s\<lparr>defaultIcon := Some (DivIcon Default (nextIcon s)),
                    highlightedIcon := Some (DivIcon Highlighted (Suc (nextIcon s))),
                    nextIcon := Suc (Suc (nextIcon s))\<rparr>;
             m = \<lparr>layers = [], view_calls = [SetView c z], tileLayer = True,
                  containerClass = True, zoomControl = False\<rparr>;
             s2 = s1\<lparr>mapInstanceRef := Some m, isMapInitialized := True\<rparr>
         in if \<not> map_ok L then Inl (WidgetError, s1)
            else if \<not> tileLayer_ok L then Inl (WidgetError, s1)
            else if \<not> addClass_ok L then Inl (WidgetError, s1)
            else if \<not> addControl_ok L then Inl (WidgetError, s2)
            else Inr (s2\<lparr>mapInstanceRef := Some (m\<lparr>zoomControl := True\<rparr>)\<rparr>)))"

definition initializeMap_resume ::
  "bool \<Rightarrow> leaflet \<Rightarrow> bool \<Rightarrow> bool \<Rightarrow> latlng \<Rightarrow> real \<Rightarrow> map_state \<Rightarrow> map_state" where
  "initializeMap_resume import_ok L isMounted initialized c z s =
     (case initializeMap_try import_ok L isMounted initialized c z s of
        Inl e \<Rightarrow>
          (snd e)\<lparr>console := console (snd e) @ [''Error initializing map:''],
                  toasts := toasts (snd e) @ [ToastError ''Failed to load map. Please refresh the page.'']\<rparr>
      | Inr s' \<Rightarrow> s')"

section \<open>The three effects and the events of the component\<close>

text \<open>
  An effect runs after the first render and after every render in which one of its
  dependencies differs from the previous render; its previous cleanup runs first.
  State updates made by one continuation are rendered together (React 18 batching).

  The initialization effect (lines 25-96) starts an attempt, which stops at its
  \<^verbatim>\<open>await\<close>; the cleanup clears \<open>isMounted\<close> of the attempt it belongs to.
\<close>

definition initEffect_cleanup :: "map_state \<Rightarrow> map_state" where
  "initEffect_cleanup s =
     (case initCleanup s of
        None \<Rightarrow> s
      | Some k \<Rightarrow>
          s\<lparr>initAttempts :=
              map (\<lambda>a. if fst a = k then (fst a, False, snd (snd a)) else a) (initAttempts s)\<rparr>)"

definition initEffect_body :: "map_state \<Rightarrow> map_state" where
  "initEffect_body s =
     s\<lparr>initAttempts :=
         initAttempts s @ [(nextTask s, True, isMapInitialized s, center s, zoom s)],
       initCleanup := Some (nextTask s),
       nextTask := Suc (nextTask s),
       initDeps := Some (zoom s, isMapInitialized s)\<rparr>"

text \<open>
  The marker effect (lines 99-151) calls \<^verbatim>\<open>updateMarkers\<close> when the flag is set; the call
  runs up to its \<^verbatim>\<open>await\<close>, behind the guard of line 101.
\<close>

definition updateMarkers_call :: "map_state \<Rightarrow> map_state" where
  "updateMarkers_call s =
     (case mapInstanceRef s of
        None \<Rightarrow> s
      | Some m \<Rightarrow>
          (case defaultIcon s of
             None \<Rightarrow> s
           | Some d \<Rightarrow>
               s\<lparr>syncCalls := syncCalls s @ [(nextTask s, places s, d)],
                 nextTask := Suc (nextTask s)\<rparr>))"

definition markerEffect_body :: "map_state \<Rightarrow> map_state" where
  "markerEffect_body s =
     (let s' = (if isMapInitialized s then updateMarkers_call s else s)
      in s'\<lparr>markerDeps := Some (places s, defaultIcon s, isMapInitialized s)\<rparr>)"

text \<open>
  The hover effect (lines 154-187) requests an animation frame for \<^verbatim>\<open>highlightMarker\<close>;
  its cleanup cancels that request. Behind the guard of line 155 it returns no cleanup.
\<close>

definition hoverEffect_cleanup :: "map_state \<Rightarrow> map_state" where
  "hoverEffect_cleanup s =
     (case hoverCleanup s of
        None \<Rightarrow> s
      | Some f \<Rightarrow> s\<lparr>frames := filter (\<lambda>e. fst e \<noteq> f) (frames s)\<rparr>)"

definition hoverEffect_body :: "map_state \<Rightarrow> map_state" where
  "hoverEffect_body s =
     (let s' = s\<lparr>hoverDeps := Some (hoveredPlaceId s, defaultIcon s, highlightedIcon s)\<rparr>
      in case (mapInstanceRef s, defaultIcon s, highlightedIcon s) of
           (Some m, Some d, Some h) \<Rightarrow>
             s'\<lparr>frames := frames s @ [(nextFrame s, hoveredPlaceId s, d, h)],
                nextFrame := Suc (nextFrame s),
                hoverCleanup := Some (nextFrame s)\<rparr>
         | _ \<Rightarrow> s'\<lparr>hoverCleanup := None\<rparr>)"

text \<open>
  A render with the given props. \<open>places_fresh\<close> and \<open>center_fresh\<close> say that the array
  is a new object (the default \<^verbatim>\<open>center\<close> is a new array in every render). All cleanups
  of the effects that run come first, then their bodies, in source order.
\<close>

definition render ::
  "place list \<Rightarrow> bool \<Rightarrow> latlng \<Rightarrow> bool \<Rightarrow> real \<Rightarrow> string option \<Rightarrow> map_state \<Rightarrow> map_state" where
  "render ps places_fresh c center_fresh z hov s =
     (let runInit = (center_fresh \<or> c \<noteq> center s \<or> initDeps s \<noteq> Some (z, isMapInitialized s));
          runMarker = (places_fresh \<or> markerDeps s \<noteq> Some (ps, defaultIcon s, isMapInitialized s));
          runHover = (hoverDeps s \<noteq> Some (hov, defaultIcon s, highlightedIcon s));
          s0 = s\<lparr>places := ps, center := c, zoom := z, hoveredPlaceId := hov\<rparr>;
          s1 = (if runInit then initEffect_cleanup s0 else s0);
          s2 = (if runHover then hoverEffect_cleanup s1 else s1);
          s3 = (if runInit then initEffect_body s2 else s2);
          s4 = (if runMarker then markerEffect_body s3 else s3)
      in if runHover then hoverEffect_body s4 else s4)"

text \<open>An animation frame runs the requested callbacks in order.\<close>

definition animationFrame :: "map_state \<Rightarrow> map_state" where
  "animationFrame s =
     fold (\<lambda>e. highlightMarker (fst (snd e)) (fst (snd (snd e))) (snd (snd (snd e))))
       (frames s) (s\<lparr>frames := []\<rparr>)"

text \<open>The import of a pending attempt or call settles: its continuation runs.\<close>

definition initImport :: "nat \<Rightarrow> bool \<Rightarrow> leaflet \<Rightarrow> map_state \<Rightarrow> map_state" where
  "initImport k import_ok L s =
     (case map_of (initAttempts s) k of
        None \<Rightarrow> s
      | Some a \<Rightarrow>
          initializeMap_resume import_ok L (fst a) (fst (snd a)) (fst (snd (snd a))) (snd (snd (snd a)))
            (s\<lparr>initAttempts := filter (\<lambda>e. fst e \<noteq> k) (initAttempts s)\<rparr>))"

definition syncImport :: "nat \<Rightarrow> bool \<Rightarrow> leaflet \<Rightarrow> map_state \<Rightarrow> map_state" where
  "syncImport k import_ok L s =
     (case map_of (syncCalls s) k of
        None \<Rightarrow> s
      | Some a \<Rightarrow>
          updateMarkers_resume import_ok L (fst a) (snd a)
            (s\<lparr>syncCalls := filter (\<lambda>e. fst e \<noteq> k) (syncCalls s)\<rparr>))"

datatype event =
    Render "place list" bool latlng bool real "string option"
  | InitImport nat bool leaflet
  | SyncImport nat bool leaflet
  | AnimationFrame

fun step :: "event \<Rightarrow> map_state \<Rightarrow> map_state" where
  "step (Render ps pf c cf z hov) s = render ps pf c cf z hov s"
| "step (InitImport k ok L) s = initImport k ok L s"
| "step (SyncImport k ok L) s = syncImport k ok L s"
| "step AnimationFrame s = animationFrame s"

definition run :: "event list \<Rightarrow> map_state \<Rightarrow> map_state" where
  "run evs s = fold step evs s"

text \<open>The component before its first render: the container exists, nothing else does.\<close>

definition mounted :: map_state where
  "mounted =
     \<lparr>places = [], center = (0, 0), zoom = 0, hoveredPlaceId = None,
      mapRef = True, mapInstanceRef = None, markersRef = [],
      defaultIcon = None, highlightedIcon = None, isMapInitialized = False,
      heap = (\<lambda>h. None), nextHandle = 0, nextIcon = 0,
      console = [], toasts = [], uncaught = [], frames = [], nextFrame = 0,
      initAttempts = [], syncCalls = [], nextTask = 0,
      initCleanup = None, hoverCleanup = None,
      initDeps = None, markerDeps = None, hoverDeps = None\<rparr>"

section \<open>The itinerary store and the itinerary page\<close>

text \<open>
  Modelled from the spec: the itinerary store (\<^verbatim>\<open>@/context/ItineraryContext\<close>) is not
  among the sources; only its caller \<^verbatim>\<open>Itinerary.tsx\<close> is. Section 4.1 of the
  specification gives its contract: \<open>add(place)\<close> inserts the place if its identifier is
  not already present and has no effect otherwise, \<open>remove(placeId)\<close> deletes the entry
  with that identifier if present, \<open>clear()\<close> empties the itinerary.
\<close>

definition add_place :: "place \<Rightarrow> place list \<Rightarrow> place list" where
  "add_place p its = (if place_id p \<in> set (map place_id its) then its else its @ [p])"

definition remove_place :: "string \<Rightarrow> place list \<Rightarrow> place list" where
  "remove_place i its = filter (\<lambda>p. place_id p \<noteq> i) its"

definition clearItinerary :: "place list \<Rightarrow> place list" where
  "clearItinerary its = []"

datatype op = Add place | Remove string

fun apply_op :: "op \<Rightarrow> place list \<Rightarrow> place list" where
  "apply_op (Add p) its = add_place p its"
| "apply_op (Remove i) its = remove_place i its"

definition apply_ops :: "op list \<Rightarrow> place list \<Rightarrow> place list" where
  "apply_ops ops its = fold apply_op ops its"

text \<open>
  The page (\<^verbatim>\<open>src/pages/Itinerary.tsx\<close>): the itinerary of the store, the confirmation
  flag, the toasts sent, the pending timeouts (due time in milliseconds) and the clock.
  \<open>clearCalls\<close> counts the calls of the store's \<open>clearItinerary\<close>.
\<close>

datatype timer_action = HideConfirm

record page =
  itinerary :: "place list"
  showConfirmClear :: bool
  notifications :: "toast list"
  timers :: "(nat \<times> timer_action) list"
  clock :: nat
  clearCalls :: nat

definition handleShare :: "page \<Rightarrow> page" where
  "handleShare pg =
     (if length (itinerary pg) = 0
      then pg\<lparr>notifications := notifications pg @ [ToastError ''You don't have any places to share'']\<rparr>
      else pg\<lparr>notifications := notifications pg @ [ToastSuccess ''Sharing is not available in the demo'']\<rparr>)"

definition handleDownload :: "page \<Rightarrow> page" where
  "handleDownload pg =
     (if length (itinerary pg) = 0
      then pg\<lparr>notifications := notifications pg @ [ToastError ''You don't have any places to download'']\<rparr>
      else pg\<lparr>notifications := notifications pg @ [ToastSuccess ''Download is not available in the demo'']\<rparr>)"

definition handleClearItinerary :: "page \<Rightarrow> page" where
  "handleClearItinerary pg =
     (if showConfirmClear pg
      then pg\<lparr>itinerary := clearItinerary (itinerary pg), clearCalls := Suc (clearCalls pg),
              showConfirmClear := False\<rparr>
      else pg\<lparr>showConfirmClear := True, timers := timers pg @ [(clock pg + 3000, HideConfirm)]\<rparr>)"

text \<open>The callback of the timeout, and time passing: the timeouts that are due fire.\<close>

fun fire :: "timer_action \<Rightarrow> page \<Rightarrow> page" where
  "fire HideConfirm pg = pg\<lparr>showConfirmClear := False\<rparr>"

definition advance :: "nat \<Rightarrow> page \<Rightarrow> page" where
  "advance dt pg =
     (let t = clock pg + dt;
          due = filter (\<lambda>e. fst e \<le> t) (timers pg)
      in fold (\<lambda>e. fire (snd e)) due
           (pg\<lparr>clock := t, timers := filter (\<lambda>e. \<not> fst e \<le> t) (timers pg)\<rparr>))"

text \<open>
  A user session on the page: the three buttons and the passing of time.
\<close>

datatype page_event = Share | Download | ClearClick | Tick nat

fun page_step :: "page_event \<Rightarrow> page \<Rightarrow> page" where
  "page_step Share pg = handleShare pg"
| "page_step Download pg = handleDownload pg"
| "page_step ClearClick pg = handleClearItinerary pg"
| "page_step (Tick dt) pg = advance dt pg"

section \<open>Notions of the specification and example inputs\<close>

text \<open>
  The identifier whose most recent operation in a sequence is an \<open>add\<close>, and the
  identifiers a sequence adds and removes at all.
\<close>

fun touches :: "string \<Rightarrow> op \<Rightarrow> bool" where
  "touches i (Add p) = (place_id p = i)"
| "touches i (Remove j) = (j = i)"

fun is_add :: "op \<Rightarrow> bool" where
  "is_add (Add p) = True"
| "is_add (Remove j) = False"

definition last_op_adds :: "string \<Rightarrow> op list \<Rightarrow> bool" where
  "last_op_adds i ops = (case rev (filter (touches i) ops) of [] \<Rightarrow> False | x # xs \<Rightarrow> is_add x)"

fun added_ids :: "op list \<Rightarrow> string list" where
  "added_ids [] = []"
| "added_ids (Add p # ops) = place_id p # added_ids ops"
| "added_ids (Remove i # ops) = added_ids ops"

fun removed_ids :: "op list \<Rightarrow> string list" where
  "removed_ids [] = []"
| "removed_ids (Add p # ops) = removed_ids ops"
| "removed_ids (Remove i # ops) = i # removed_ids ops"

definition place1 :: place where
  "place1 = \<lparr>place_id = ''p1'', name = ''Sabarmati Ashram'', category = ''Heritage'', rating = 5,
     location = (23, 72), businessFeatures = None\<rparr>"

definition place2 :: place where
  "place2 = \<lparr>place_id = ''p2'', name = ''Kankaria Lake'', category = ''Leisure'', rating = 4,
     location = (22, 73), businessFeatures = Some True\<rparr>"

definition empty_page :: page where
  "empty_page = \<lparr>itinerary = [], showConfirmClear = False, notifications = [], timers = [],
     clock = 0, clearCalls = 0\<rparr>"

definition one_place_page :: page where
  "one_place_page = \<lparr>itinerary = [place1], showConfirmClear = False, notifications = [], timers = [],
     clock = 0, clearCalls = 0\<rparr>"

definition registry_wf :: "map_state \<Rightarrow> bool" where
  "registry_wf s \<longleftrightarrow>
     distinct (map fst (markersRef s)) \<and> distinct (map snd (markersRef s))
     \<and> (\<forall>e\<in>set (markersRef s). heap s (snd e) \<noteq> None)"

definition iconOf :: "map_state \<Rightarrow> nat \<Rightarrow> icon option" where
  "iconOf s h = map_option m_icon (heap s h)"

definition popupOpenOf :: "map_state \<Rightarrow> nat \<Rightarrow> bool option" where
  "popupOpenOf s h = map_option m_popupOpen (heap s h)"

definition resetHeap ::
  "string option \<Rightarrow> icon \<Rightarrow> (string \<times> nat) list \<Rightarrow> (nat \<Rightarrow> marker option) \<Rightarrow> nat \<Rightarrow> marker option" where
  "resetHeap hov d reg hp h =
     (if h \<in> snd ` {e \<in> set reg. Some (fst e) \<noteq> hov}
      then map_option (\<lambda>m. m\<lparr>m_icon := d, m_popupOpen := False\<rparr>) (hp h)
      else hp h)"

definition all_ok :: leaflet where
  "all_ok = \<lparr>divIcon_ok = True, map_ok = True, tileLayer_ok = True, addClass_ok = True,
     addControl_ok = True, marker_ok = (\<lambda>p. True), fitBounds_ok = (\<lambda>b. True)\<rparr>"

definition default_center :: latlng where
  "default_center = (23.0225, 72.5714)"

definition shown :: map_state where
  "shown = run [Render [place1, place2] True default_center True 12 None,
                InitImport 0 True all_ok,
                Render [place1, place2] False default_center True 12 None,
                SyncImport 2 True all_ok] mounted"

definition unnamed_place :: place where
  "unnamed_place = \<lparr>place_id = [], name = ''Unnamed'', category = ''Other'', rating = 3,
     location = (21, 71), businessFeatures = None\<rparr>"

definition shown_unnamed :: map_state where
  "shown_unnamed = run [Render [unnamed_place] True default_center True 12 None,
                InitImport 0 True all_ok,
                Render [unnamed_place] False default_center True 12 None,
                SyncImport 2 True all_ok] mounted"

fun placedHeap :: "icon \<Rightarrow> place list \<Rightarrow> nat \<Rightarrow> (nat \<Rightarrow> marker option) \<Rightarrow> nat \<Rightarrow> marker option" where
  "placedHeap d [] n hp = hp"
| "placedHeap d (p # ps) n hp = placedHeap d ps (Suc n) (hp(n \<mapsto> newMarker d p))"

fun registered :: "place list \<Rightarrow> nat \<Rightarrow> (string \<times> nat) list \<Rightarrow> (string \<times> nat) list" where
  "registered [] n r = r"
| "registered (p # ps) n r = registered ps (Suc n) (AList.update (place_id p) n r)"


definition sync_completes :: "bool \<Rightarrow> leaflet \<Rightarrow> place list \<Rightarrow> icon \<Rightarrow> map_state \<Rightarrow> bool" where
  "sync_completes import_ok L ps dflt s =
     (case updateMarkers_try import_ok L ps dflt s of Inl e \<Rightarrow> False | Inr s' \<Rightarrow> True)"


definition rebuilt :: "icon \<Rightarrow> place list \<Rightarrow> map_state \<Rightarrow> map_state" where
  "rebuilt d ps s = fold (placeMarker d) ps (clearMarkers s)"




section \<open>The invariant of the map view\<close>

text \<open>
  The invariant of the component. It holds before the first render and every event
  preserves it.
\<close>

definition variantOf :: "map_state \<Rightarrow> nat \<Rightarrow> variant option" where
  "variantOf s h = map_option (\<lambda>m. icon_variant (m_icon m)) (heap s h)"

definition inv_heap :: "map_state \<Rightarrow> bool" where
  "inv_heap s \<longleftrightarrow> registry_wf s \<and> (\<forall>e\<in>set (markersRef s). snd e < nextHandle s)"

definition mapLayers :: "map_state \<Rightarrow> nat list" where
  "mapLayers s = (case mapInstanceRef s of None \<Rightarrow> [] | Some m \<Rightarrow> layers m)"

definition inv_map :: "map_state \<Rightarrow> bool" where
  "inv_map s \<longleftrightarrow>
     (mapInstanceRef s = None \<longrightarrow>
        \<not> isMapInitialized s \<and> markersRef s = [] \<and> frames s = [] \<and> syncCalls s = [])
     \<and> (mapInstanceRef s \<noteq> None \<longrightarrow>
        isMapInitialized s \<and> defaultIcon s \<noteq> None \<and> highlightedIcon s \<noteq> None)
     \<and> (\<forall>h\<in>set (mapLayers s).
           h < nextHandle s \<and> (h \<in> snd ` set (markersRef s) \<or> variantOf s h = Some Default))"

definition inv_icons :: "map_state \<Rightarrow> bool" where
  "inv_icons s \<longleftrightarrow>
     (\<forall>i. defaultIcon s = Some i \<longrightarrow> icon_variant i = Default)
     \<and> (\<forall>i. highlightedIcon s = Some i \<longrightarrow> icon_variant i = Highlighted)
     \<and> (\<forall>c\<in>set (syncCalls s). icon_variant (snd (snd c)) = Default)
     \<and> (\<forall>f\<in>set (frames s).
           icon_variant (fst (snd (snd f))) = Default
           \<and> icon_variant (snd (snd (snd f))) = Highlighted)"

definition inv_init :: "map_state \<Rightarrow> bool" where
  "inv_init s \<longleftrightarrow>
     distinct (map fst (initAttempts s))
     \<and> (\<forall>a\<in>set (initAttempts s).
           fst a < nextTask s
           \<and> (fst (snd a) \<longrightarrow>
                initCleanup s = Some (fst a) \<and> (isMapInitialized s \<longrightarrow> fst (snd (snd a)))))"

definition inv_sync :: "map_state \<Rightarrow> bool" where
  "inv_sync s \<longleftrightarrow>
     distinct (map fst (syncCalls s)) \<and> (\<forall>c\<in>set (syncCalls s). fst c < nextTask s)
     \<and> (\<forall>dps. markerDeps s = Some dps \<and> snd (snd dps) \<longrightarrow> isMapInitialized s)"

definition inv_frames :: "map_state \<Rightarrow> bool" where
  "inv_frames s \<longleftrightarrow>
     distinct (map fst (frames s))
     \<and> (\<forall>f\<in>set (frames s). fst f < nextFrame s \<and> hoverCleanup s = Some (fst f))"

definition inv :: "map_state \<Rightarrow> bool" where
  "inv s \<longleftrightarrow> inv_heap s \<and> inv_map s \<and> inv_icons s \<and> inv_init s \<and> inv_sync s \<and> inv_frames s"

definition unmounted :: "map_state \<Rightarrow> bool" where
  "unmounted s \<longleftrightarrow> (\<forall>a\<in>set (initAttempts s). \<not> fst (snd a))"


text \<open>
  Every marker on the map bears a default icon; a state in which no hover-highlight pass
  is pending and the hover effect has run for the current selection and icons; an event
  that leaves the hover selection as it is.
\<close>

definition all_default :: "map_state \<Rightarrow> bool" where
  "all_default s \<longleftrightarrow> (\<forall>h\<in>set (mapLayers s). variantOf s h = Some Default)"












section \<open>Properties of the itinerary store\<close>

lemma apply_ops_snoc: "apply_ops (ops @ [x]) its = apply_op x (apply_ops ops its)"
  by (simp add: apply_ops_def)

lemma ids_add_place: "set (map place_id (add_place p its)) = insert (place_id p) (set (map place_id its))"
  by (auto simp: add_place_def)

lemma ids_remove_place: "set (map place_id (remove_place i its)) = set (map place_id its) - {i}"
  by (auto simp: remove_place_def)

lemma distinct_add_place: "distinct (map place_id its) \<Longrightarrow> distinct (map place_id (add_place p its))"
  by (auto simp: add_place_def)

lemma distinct_remove_place: "distinct (map place_id its) \<Longrightarrow> distinct (map place_id (remove_place i its))"
  by (simp add: remove_place_def distinct_map_filter)

lemma distinct_apply_ops: "distinct (map place_id its) \<Longrightarrow> distinct (map place_id (apply_ops ops its))"
proof (induction ops rule: rev_induct)
  case Nil
  then show ?case by (simp add: apply_ops_def)
next
  case (snoc x xs)
  then show ?case
    by (cases x) (simp_all add: apply_ops_snoc distinct_add_place distinct_remove_place)
qed

lemma last_op_adds_snoc:
  "last_op_adds i (ops @ [x]) = (if touches i x then is_add x else last_op_adds i ops)"
  by (simp add: last_op_adds_def)

lemma ids_apply_ops:
  "i \<in> set (map place_id (apply_ops ops [])) \<longleftrightarrow> last_op_adds i ops"
proof (induction ops rule: rev_induct)
  case Nil
  then show ?case by (simp add: apply_ops_def last_op_adds_def)
next
  case (snoc x xs)
  show ?case
  proof (cases x)
    case (Add p)
    then show ?thesis
      using snoc ids_add_place [of p "apply_ops xs []"]
      by (auto simp add: apply_ops_snoc last_op_adds_snoc simp del: set_map)
  next
    case (Remove j)
    then show ?thesis
      using snoc ids_remove_place [of j "apply_ops xs []"]
      by (auto simp add: apply_ops_snoc last_op_adds_snoc simp del: set_map)
  qed
qed

text \<open>
  Claim C2, as amended. For every sequence of add and remove operations on an itinerary
  that starts empty, the identifiers of the resulting itinerary are exactly those whose
  most recent operation in the sequence is an \<open>add\<close>; the itinerary never holds an
  identifier twice; and \<open>add\<close> of a place whose identifier is present returns the
  itinerary unchanged.
\<close>

theorem C2_itinerary_ops:
  "set (map place_id (apply_ops ops [])) = {i. last_op_adds i ops}
   \<and> distinct (map place_id (apply_ops ops []))
   \<and> (place_id p \<in> set (map place_id its) \<longrightarrow> add_place p its = its)"
  using ids_apply_ops [of _ ops] distinct_apply_ops [of "[]" ops]
  by (auto simp add: add_place_def simp del: set_map)

text \<open>
  The claim as stated takes the set of added identifiers minus the set of removed ones,
  whatever the order: adding \<open>p1\<close>, removing it and adding it again leaves \<open>p1\<close> in the
  itinerary, while that difference is empty.
\<close>

theorem C2_counterexample:
  "set (map place_id (apply_ops [Add place1, Remove ''p1'', Add place1] []))
     \<noteq> set (added_ids [Add place1, Remove ''p1'', Add place1])
         - set (removed_ids [Add place1, Remove ''p1'', Add place1])"
  by (simp add: apply_ops_def add_place_def remove_place_def place1_def)

text \<open>Adding a place that is present, at a concrete itinerary.\<close>

theorem C2_witness:
  "place_id place1 \<in> set (map place_id [place1, place2]) \<and> add_place place1 [place1, place2] = [place1, place2]"
  using C2_itinerary_ops [of "[]" place1 "[place1, place2]"]
  by (simp add: place1_def)

text \<open>The scenario of the specification: add \<open>p1\<close> twice, add \<open>p2\<close>, remove \<open>p1\<close>, clear.\<close>

lemma itinerary_scenario:
  "apply_ops [Add place1] [] = [place1]
   \<and> apply_ops [Add place1, Add place1] [] = [place1]
   \<and> apply_ops [Add place1, Add place1, Add place2] [] = [place1, place2]
   \<and> apply_ops [Add place1, Add place1, Add place2, Remove ''p1''] [] = [place2]
   \<and> clearItinerary (apply_ops [Add place1, Add place1, Add place2, Remove ''p1''] []) = []"
  by (simp add: apply_ops_def add_place_def remove_place_def clearItinerary_def place1_def place2_def)

section \<open>Properties of the itinerary page\<close>

lemma fire_eq: "fire a pg = pg\<lparr>showConfirmClear := False\<rparr>"
  by (cases a) simp

lemma fold_fire:
  "fold (\<lambda>e. fire (snd e)) xs pg = (if xs = [] then pg else pg\<lparr>showConfirmClear := False\<rparr>)"
  by (induction xs arbitrary: pg) (simp_all add: fire_eq)

lemma advance_eq:
  "advance dt pg =
     (if \<exists>e\<in>set (timers pg). fst e \<le> clock pg + dt
      then pg\<lparr>clock := clock pg + dt, timers := filter (\<lambda>e. \<not> fst e \<le> clock pg + dt) (timers pg),
              showConfirmClear := False\<rparr>
      else pg\<lparr>clock := clock pg + dt, timers := filter (\<lambda>e. \<not> fst e \<le> clock pg + dt) (timers pg)\<rparr>)"
  by (auto simp add: advance_def Let_def fold_fire filter_empty_conv)

text \<open>
  Claim C8. The share and the download handler never modify the itinerary. On an empty
  itinerary each sends one error toast and changes nothing else; on a non-empty one each
  sends one toast saying that the feature is not available in the demo, and changes
  nothing else.
\<close>

theorem C8_share_download:
  "itinerary (handleShare pg) = itinerary pg \<and> itinerary (handleDownload pg) = itinerary pg
   \<and> (itinerary pg = [] \<longrightarrow>
        handleShare pg =
          pg\<lparr>notifications := notifications pg @ [ToastError ''You don't have any places to share'']\<rparr>
      \<and> handleDownload pg =
          pg\<lparr>notifications := notifications pg @ [ToastError ''You don't have any places to download'']\<rparr>)
   \<and> (itinerary pg \<noteq> [] \<longrightarrow>
        handleShare pg =
          pg\<lparr>notifications := notifications pg @ [ToastSuccess ''Sharing is not available in the demo'']\<rparr>
      \<and> handleDownload pg =
          pg\<lparr>notifications := notifications pg @ [ToastSuccess ''Download is not available in the demo'']\<rparr>)"
  by (simp add: handleShare_def handleDownload_def)

text \<open>Both branches at concrete pages.\<close>

theorem C8_witness:
  "itinerary empty_page = [] \<and> itinerary one_place_page \<noteq> []
   \<and> notifications (handleShare empty_page) = [ToastError ''You don't have any places to share'']
   \<and> notifications (handleDownload one_place_page) = [ToastSuccess ''Download is not available in the demo'']
   \<and> itinerary (handleDownload one_place_page) = [place1]"
  using C8_share_download [of empty_page] C8_share_download [of one_place_page]
  by (simp add: empty_page_def one_place_page_def)

text \<open>
  Claim C10. A click on the clear button while no confirmation is pending leaves the
  itinerary alone and does not call the store's clear operation: it sets the
  confirmation flag and starts a timeout of 3000 ms whose callback resets the flag, so
  that 3000 ms later the flag is off (and it is still on before that when no older
  timeout is due). A click while the flag is on calls the store's clear operation once.
  No event of the page other than a click with the flag on calls clear or changes the
  itinerary, and only a click turns the flag on.
\<close>

theorem C10_clear_needs_confirmation:
  "(\<not> showConfirmClear pg \<longrightarrow>
       itinerary (handleClearItinerary pg) = itinerary pg
     \<and> clearCalls (handleClearItinerary pg) = clearCalls pg
     \<and> showConfirmClear (handleClearItinerary pg)
     \<and> timers (handleClearItinerary pg) = timers pg @ [(clock pg + 3000, HideConfirm)]
     \<and> \<not> showConfirmClear (advance 3000 (handleClearItinerary pg))
     \<and> itinerary (advance 3000 (handleClearItinerary pg)) = itinerary pg
     \<and> clearCalls (advance 3000 (handleClearItinerary pg)) = clearCalls pg
     \<and> (dt < 3000 \<and> (\<forall>e\<in>set (timers pg). clock pg + dt < fst e) \<longrightarrow>
          showConfirmClear (advance dt (handleClearItinerary pg))))
   \<and> (showConfirmClear pg \<longrightarrow>
       itinerary (handleClearItinerary pg) = []
     \<and> clearCalls (handleClearItinerary pg) = Suc (clearCalls pg)
     \<and> \<not> showConfirmClear (handleClearItinerary pg))
   \<and> (clearCalls (page_step e pg) \<noteq> clearCalls pg \<longrightarrow> e = ClearClick \<and> showConfirmClear pg)
   \<and> (itinerary (page_step e pg) \<noteq> itinerary pg \<longrightarrow> e = ClearClick \<and> showConfirmClear pg)
   \<and> (showConfirmClear (page_step e pg) \<and> \<not> showConfirmClear pg \<longrightarrow> e = ClearClick)"
proof -
  have arm: "\<not> showConfirmClear pg \<Longrightarrow>
      handleClearItinerary pg =
        pg\<lparr>showConfirmClear := True, timers := timers pg @ [(clock pg + 3000, HideConfirm)]\<rparr>"
    by (simp add: handleClearItinerary_def)
  have confirm: "showConfirmClear pg \<Longrightarrow>
      handleClearItinerary pg =
        pg\<lparr>itinerary := [], clearCalls := Suc (clearCalls pg), showConfirmClear := False\<rparr>"
    by (simp add: handleClearItinerary_def clearItinerary_def)
  have a1: "\<not> showConfirmClear pg \<Longrightarrow> \<not> showConfirmClear (advance 3000 (handleClearItinerary pg))"
    by (simp add: arm advance_eq)
  have a2: "itinerary (advance d q) = itinerary q \<and> clearCalls (advance d q) = clearCalls q" for d q
    by (simp add: advance_eq)
  have a3: "\<not> showConfirmClear pg \<Longrightarrow> dt < 3000 \<Longrightarrow> \<forall>e\<in>set (timers pg). clock pg + dt < fst e \<Longrightarrow>
      showConfirmClear (advance dt (handleClearItinerary pg))"
    by (auto simp add: arm advance_eq)
  have a4: "showConfirmClear (advance d q) \<Longrightarrow> showConfirmClear q" for d q
    by (simp add: advance_eq split: if_splits)
  have s1: "clearCalls (page_step e pg) \<noteq> clearCalls pg \<Longrightarrow> e = ClearClick \<and> showConfirmClear pg"
    by (cases e) (auto simp add: handleShare_def handleDownload_def handleClearItinerary_def a2 split: if_splits)
  have s2: "itinerary (page_step e pg) \<noteq> itinerary pg \<Longrightarrow> e = ClearClick \<and> showConfirmClear pg"
    by (cases e) (auto simp add: handleShare_def handleDownload_def handleClearItinerary_def a2 split: if_splits)
  have s3: "showConfirmClear (page_step e pg) \<Longrightarrow> \<not> showConfirmClear pg \<Longrightarrow> e = ClearClick"
    by (cases e) (auto simp add: handleShare_def handleDownload_def dest: a4 split: if_splits)
  show ?thesis
    using a1 a2 a3 s1 s2 s3 by (auto simp add: arm confirm)
qed

text \<open>A first click, the wait, and a second click, at a concrete page.\<close>

theorem C10_witness:
  "\<not> showConfirmClear one_place_page
   \<and> itinerary (handleClearItinerary one_place_page) = [place1]
   \<and> showConfirmClear (handleClearItinerary one_place_page)
   \<and> \<not> showConfirmClear (advance 3000 (handleClearItinerary one_place_page))
   \<and> 2999 < (3000::nat) \<and> timers one_place_page = []
   \<and> showConfirmClear (advance 2999 (handleClearItinerary one_place_page))
   \<and> showConfirmClear (handleClearItinerary one_place_page)
   \<and> itinerary (handleClearItinerary (handleClearItinerary one_place_page)) = []
   \<and> clearCalls (page_step ClearClick (handleClearItinerary one_place_page))
       \<noteq> clearCalls (handleClearItinerary one_place_page)
   \<and> itinerary (page_step ClearClick (handleClearItinerary one_place_page))
       \<noteq> itinerary (handleClearItinerary one_place_page)
   \<and> showConfirmClear (page_step ClearClick one_place_page)"
  using C10_clear_needs_confirmation [of one_place_page 2999 ClearClick]
    C10_clear_needs_confirmation [of "handleClearItinerary one_place_page" 0 ClearClick]
  by (simp add: one_place_page_def)

section \<open>Properties of the map view\<close>

lemma fold_resetMarker:
  "fold (resetMarker hov d) xs s =
     s\<lparr>heap := fold (\<lambda>e hp. if Some (fst e) \<noteq> hov
                              then hp(snd e := map_option (\<lambda>m. m\<lparr>m_icon := d, m_popupOpen := False\<rparr>) (hp (snd e)))
                              else hp) xs (heap s)\<rparr>"
proof (induction xs arbitrary: s)
  case Nil
  then show ?case by simp
next
  case (Cons x xs)
  have "resetMarker hov d x s =
      s\<lparr>heap := (if Some (fst x) \<noteq> hov
                 then (heap s)(snd x := map_option (\<lambda>m. m\<lparr>m_icon := d, m_popupOpen := False\<rparr>) (heap s (snd x)))
                 else heap s)\<rparr>"
    by (simp add: resetMarker_def closePopup_def setIcon_def option.map_comp comp_def)
  then show ?case
    by (simp add: Cons.IH)
qed

lemma fold_reset_heap:
  "fold (\<lambda>e hp. if Some (fst e) \<noteq> hov
                 then hp(snd e := map_option (\<lambda>m. m\<lparr>m_icon := d, m_popupOpen := False\<rparr>) (hp (snd e)))
                 else hp) xs hp h =
     (if h \<in> snd ` {e \<in> set xs. Some (fst e) \<noteq> hov}
      then map_option (\<lambda>m. m\<lparr>m_icon := d, m_popupOpen := False\<rparr>) (hp h)
      else hp h)"
proof (induction xs arbitrary: hp)
  case Nil
  then show ?case by simp
next
  case (Cons x xs)
  obtain i h0 where x: "x = (i, h0)" by (cases x)
  show ?case
    by (auto simp add: x Cons.IH option.map_comp comp_def image_iff)
qed

lemma highlightMarker_eq:
  "highlightMarker hov d hl s =
     (let s1 = s\<lparr>heap := resetHeap hov d (markersRef s) (heap s)\<rparr> in
      case hov of
        None \<Rightarrow> s1
      | Some hid \<Rightarrow>
          if hid = [] then s1
          else (case map_of (markersRef s) hid of
                  None \<Rightarrow> s1
                | Some h \<Rightarrow> panTo h (openPopup h (setIcon h hl s1))))"
proof -
  have "fold (resetMarker hov d) (markersRef s) s = s\<lparr>heap := resetHeap hov d (markersRef s) (heap s)\<rparr>"
    unfolding fold_resetMarker
    by (rule arg_cong [where f = "\<lambda>hp. s\<lparr>heap := hp\<rparr>"]) (rule ext, simp only: fold_reset_heap resetHeap_def)
  then show ?thesis
    by (simp add: highlightMarker_def Let_def split: option.splits)
qed

lemma highlightMarker_markersRef [simp]:
  "markersRef (highlightMarker hov d hl s) = markersRef s"
  by (simp add: highlightMarker_eq panTo_def openPopup_def setIcon_def Let_def split: option.splits)

lemma distinct_snd_unique:
  "distinct (map snd reg) \<Longrightarrow> (a, h) \<in> set reg \<Longrightarrow> (b, h) \<in> set reg \<Longrightarrow> a = b"
  by (force simp add: distinct_map inj_on_def)

lemma distinct_fst_unique:
  "distinct (map fst reg) \<Longrightarrow> (a, h) \<in> set reg \<Longrightarrow> (a, h') \<in> set reg \<Longrightarrow> h = h'"
  by (force simp add: distinct_map inj_on_def)

lemma resetHeap_other:
  assumes "distinct (map snd reg)" "(i, h) \<in> set reg" "Some i \<noteq> hov"
  shows "resetHeap hov d reg hp h = map_option (\<lambda>m. m\<lparr>m_icon := d, m_popupOpen := False\<rparr>) (hp h)"
  using assms by (force simp add: resetHeap_def)

lemma resetHeap_selected:
  assumes "distinct (map snd reg)" "(i, h) \<in> set reg"
  shows "resetHeap (Some i) d reg hp h = hp h"
  using assms distinct_snd_unique [OF assms(1)] by (auto simp add: resetHeap_def)

lemma highlight_others:
  assumes wf: "registry_wf s" and e: "(i, h) \<in> set (markersRef s)" and ne: "Some i \<noteq> hov"
  shows "iconOf (highlightMarker hov d hl s) h = Some d
       \<and> popupOpenOf (highlightMarker hov d hl s) h = Some False"
proof -
  from wf e obtain mk where mk: "heap s h = Some mk"
    by (auto simp add: registry_wf_def)
  from wf have ds: "distinct (map snd (markersRef s))" and df: "distinct (map fst (markersRef s))"
    by (simp_all add: registry_wf_def)
  have r: "resetHeap hov d (markersRef s) (heap s) h = Some (mk\<lparr>m_icon := d, m_popupOpen := False\<rparr>)"
    using resetHeap_other [OF ds e ne] mk by simp
  have other: "h' \<noteq> h" if "hov = Some hid" "map_of (markersRef s) hid = Some h'" for hid h'
  proof
    assume "h' = h"
    with that have "(hid, h) \<in> set (markersRef s)" by (auto dest: map_of_SomeD)
    with e ds have "hid = i" by (auto dest: distinct_snd_unique)
    with that ne show False by simp
  qed
  show ?thesis
    using r other
    by (auto simp add: highlightMarker_eq iconOf_def popupOpenOf_def panTo_def openPopup_def
        setIcon_def Let_def split: option.splits)
qed

lemma highlight_selected:
  assumes wf: "registry_wf s" and m: "mapInstanceRef s = Some m"
    and e: "(hid, h) \<in> set (markersRef s)" and ne: "hid \<noteq> []" and mk: "heap s h = Some mk"
  shows "iconOf (highlightMarker (Some hid) d hl s) h = Some hl
       \<and> popupOpenOf (highlightMarker (Some hid) d hl s) h = Some True
       \<and> mapInstanceRef (highlightMarker (Some hid) d hl s)
           = Some (m\<lparr>view_calls := view_calls m @ [PanTo (m_latlng mk)]\<rparr>)"
proof -
  from wf have ds: "distinct (map snd (markersRef s))" and df: "distinct (map fst (markersRef s))"
    by (simp_all add: registry_wf_def)
  have look: "map_of (markersRef s) hid = Some h"
    using df e by simp
  have r: "resetHeap (Some hid) d (markersRef s) (heap s) h = Some mk"
    using resetHeap_selected [OF ds e] mk by simp
  show ?thesis
    using look r m ne
    by (simp add: highlightMarker_eq iconOf_def popupOpenOf_def panTo_def openPopup_def
        setIcon_def Let_def)
qed

lemma highlight_no_pan:
  assumes "hov = None \<or> hov = Some [] \<or> (\<forall>hid. hov = Some hid \<longrightarrow> map_of (markersRef s) hid = None)"
  shows "highlightMarker hov d hl s = s\<lparr>heap := resetHeap hov d (markersRef s) (heap s)\<rparr>"
  using assms by (auto simp add: highlightMarker_eq Let_def split: option.splits)

lemmas model_defs = run_def render_def initEffect_cleanup_def initEffect_body_def
  markerEffect_body_def updateMarkers_call_def hoverEffect_cleanup_def hoverEffect_body_def
  initImport_def syncImport_def initializeMap_resume_def initializeMap_try_def
  updateMarkers_resume_def updateMarkers_try_def clearMarkers_def placeMarker_def newMarker_def fitBounds_def
  getBounds_def markerLatLngs_def extendBounds_def popupFor_def animationFrame_def mounted_def Let_def

lemma shown_markersRef: "markersRef shown = [(''p1'', 0), (''p2'', 1)]"
  by (simp add: shown_def model_defs all_ok_def place1_def place2_def)

lemma shown_mapInstanceRef:
  "mapInstanceRef shown =
     Some \<lparr>layers = [0, 1],
            view_calls = [SetView default_center 12, FitBounds ((22, 72), (23, 73)) (50, 50)],
            tileLayer = True, containerClass = True, zoomControl = True\<rparr>"
  by (simp add: shown_def model_defs all_ok_def place1_def place2_def)

lemma shown_heap:
  "heap shown 0 = Some (newMarker (DivIcon Default 0) place1)"
  "heap shown 1 = Some (newMarker (DivIcon Default 0) place2)"
  by (simp_all add: shown_def run_def render_def initEffect_cleanup_def initEffect_body_def
  markerEffect_body_def updateMarkers_call_def hoverEffect_cleanup_def hoverEffect_body_def
  initImport_def syncImport_def initializeMap_resume_def initializeMap_try_def
  updateMarkers_resume_def updateMarkers_try_def clearMarkers_def placeMarker_def newMarker_def fitBounds_def
  getBounds_def markerLatLngs_def extendBounds_def mounted_def Let_def all_ok_def)

lemma shown_wf: "registry_wf shown"
  using shown_heap by (simp add: registry_wf_def shown_markersRef)

text \<open>
  Claim C3, as amended. In a state whose registry has distinct identifiers and distinct,
  existing markers and whose map instance is live, the hover-highlight pass does this:
  every registered marker whose identifier differs from the hover selection gets the
  default icon and a closed popup. If the selection is a non-empty identifier of a
  registered marker, that marker gets the highlighted icon and an open popup, the map
  receives one \<open>panTo\<close> to the marker's position and nothing else (no zoom), and it is
  the only registered marker with the highlighted icon. If the selection is null, the
  empty string or no registered identifier, the map is left alone and the pass gives no
  marker the highlighted icon; a marker registered under the empty string is left as it
  was when the empty string is selected.
\<close>

theorem C3_highlight_pass:
  assumes wf: "registry_wf s" and m: "mapInstanceRef s = Some m"
  shows
    "(\<forall>e\<in>set (markersRef s). Some (fst e) \<noteq> hov \<longrightarrow>
        iconOf (highlightMarker hov dflt hl s) (snd e) = Some dflt
      \<and> popupOpenOf (highlightMarker hov dflt hl s) (snd e) = Some False)
   \<and> (\<forall>hid h. hov = Some hid \<and> hid \<noteq> [] \<and> (hid, h) \<in> set (markersRef s) \<longrightarrow>
        iconOf (highlightMarker hov dflt hl s) h = Some hl
      \<and> popupOpenOf (highlightMarker hov dflt hl s) h = Some True
      \<and> (\<exists>mk. heap s h = Some mk
           \<and> mapInstanceRef (highlightMarker hov dflt hl s)
               = Some (m\<lparr>view_calls := view_calls m @ [PanTo (m_latlng mk)]\<rparr>))
      \<and> (dflt \<noteq> hl \<longrightarrow>
           (\<forall>e\<in>set (markersRef s).
              (iconOf (highlightMarker hov dflt hl s) (snd e) = Some hl) = (snd e = h))))
   \<and> (hov = None \<or> hov = Some [] \<or> (\<forall>hid. hov = Some hid \<longrightarrow> hid \<notin> fst ` set (markersRef s)) \<longrightarrow>
        mapInstanceRef (highlightMarker hov dflt hl s) = Some m
      \<and> (\<forall>h. hov = Some [] \<and> ([], h) \<in> set (markersRef s) \<longrightarrow>
             heap (highlightMarker hov dflt hl s) h = heap s h)
      \<and> (dflt \<noteq> hl \<and> hov \<noteq> Some [] \<longrightarrow>
           (\<forall>e\<in>set (markersRef s). iconOf (highlightMarker hov dflt hl s) (snd e) \<noteq> Some hl)))
   \<and> markersRef (highlightMarker hov dflt hl s) = markersRef s"
proof -
  let ?s' = "highlightMarker hov dflt hl s"
  from wf have ds: "distinct (map snd (markersRef s))" and df: "distinct (map fst (markersRef s))"
    by (simp_all add: registry_wf_def)
  have A: "iconOf ?s' (snd e) = Some dflt \<and> popupOpenOf ?s' (snd e) = Some False"
    if "e \<in> set (markersRef s)" "Some (fst e) \<noteq> hov" for e
    using highlight_others [OF wf, of "fst e" "snd e" hov dflt hl] that by simp
  have B: "iconOf ?s' h = Some hl \<and> popupOpenOf ?s' h = Some True
      \<and> (\<exists>mk. heap s h = Some mk
           \<and> mapInstanceRef ?s' = Some (m\<lparr>view_calls := view_calls m @ [PanTo (m_latlng mk)]\<rparr>))
      \<and> (dflt \<noteq> hl \<longrightarrow> (\<forall>e\<in>set (markersRef s). (iconOf ?s' (snd e) = Some hl) = (snd e = h)))"
    if hov: "hov = Some hid" and ne: "hid \<noteq> []" and reg: "(hid, h) \<in> set (markersRef s)" for hid h
  proof -
    from wf reg obtain mk where mk: "heap s h = Some mk"
      by (auto simp add: registry_wf_def)
    note sel = highlight_selected [OF wf m reg ne mk, of dflt hl]
    have one: "(iconOf ?s' (snd e) = Some hl) = (snd e = h)"
      if e: "e \<in> set (markersRef s)" and dh: "dflt \<noteq> hl" for e
    proof (cases "snd e = h")
      case True
      then show ?thesis using sel hov by simp
    next
      case False
      have "fst e \<noteq> hid"
      proof
        assume "fst e = hid"
        with e have "(hid, snd e) \<in> set (markersRef s)" by (metis prod.collapse)
        with reg df have "snd e = h" by (auto dest: distinct_fst_unique)
        with False show False by simp
      qed
      then have "Some (fst e) \<noteq> hov" using hov by simp
      from A [OF e this] False dh show ?thesis by simp
    qed
    show ?thesis using sel mk one hov by auto
  qed
  have C: "mapInstanceRef ?s' = Some m
      \<and> (\<forall>h. hov = Some [] \<and> ([], h) \<in> set (markersRef s) \<longrightarrow> heap ?s' h = heap s h)
      \<and> (dflt \<noteq> hl \<and> hov \<noteq> Some [] \<longrightarrow> (\<forall>e\<in>set (markersRef s). iconOf ?s' (snd e) \<noteq> Some hl))"
    if none: "hov = None \<or> hov = Some [] \<or> (\<forall>hid. hov = Some hid \<longrightarrow> hid \<notin> fst ` set (markersRef s))"
  proof -
    have look: "hov = None \<or> hov = Some [] \<or> (\<forall>hid. hov = Some hid \<longrightarrow> map_of (markersRef s) hid = None)"
      using none by (auto simp add: map_of_eq_None_iff)
    note eq = highlight_no_pan [OF look, of dflt hl]
    have c1: "mapInstanceRef ?s' = Some m" using eq m by simp
    have c2: "heap ?s' h = heap s h" if "hov = Some []" "([], h) \<in> set (markersRef s)" for h
      using eq that resetHeap_selected [OF ds that(2)] by simp
    have c3: "iconOf ?s' (snd e) \<noteq> Some hl"
      if "dflt \<noteq> hl" "hov \<noteq> Some []" "e \<in> set (markersRef s)" for e
    proof -
      have "Some (fst e) \<noteq> hov"
        using none that by (cases hov) (auto simp add: image_iff)
      from A [OF that(3) this] that(1) show ?thesis by simp
    qed
    show ?thesis using c1 c2 c3 by blast
  qed
  show ?thesis using A B C by (intro conjI allI ballI impI) (auto simp del: Set.ball_simps)
qed

text \<open>The pass for \<open>p2\<close> and for no selection, on the map that shows \<open>p1\<close> and \<open>p2\<close>.\<close>

theorem C3_witness:
  "registry_wf shown
   \<and> mapInstanceRef shown =
       Some \<lparr>layers = [0, 1],
              view_calls = [SetView default_center 12, FitBounds ((22, 72), (23, 73)) (50, 50)],
              tileLayer = True, containerClass = True, zoomControl = True\<rparr>
   \<and> markersRef shown = [(''p1'', 0), (''p2'', 1)]
   \<and> iconOf (highlightMarker (Some ''p2'') (DivIcon Default 0) (DivIcon Highlighted 1) shown) 1
       = Some (DivIcon Highlighted 1)
   \<and> popupOpenOf (highlightMarker (Some ''p2'') (DivIcon Default 0) (DivIcon Highlighted 1) shown) 1
       = Some True
   \<and> iconOf (highlightMarker (Some ''p2'') (DivIcon Default 0) (DivIcon Highlighted 1) shown) 0
       = Some (DivIcon Default 0)
   \<and> popupOpenOf (highlightMarker (Some ''p2'') (DivIcon Default 0) (DivIcon Highlighted 1) shown) 0
       = Some False
   \<and> mapInstanceRef (highlightMarker (Some ''p2'') (DivIcon Default 0) (DivIcon Highlighted 1) shown) =
       Some \<lparr>layers = [0, 1],
              view_calls = [SetView default_center 12, FitBounds ((22, 72), (23, 73)) (50, 50),
                            PanTo (22, 73)],
              tileLayer = True, containerClass = True, zoomControl = True\<rparr>
   \<and> iconOf (highlightMarker None (DivIcon Default 0) (DivIcon Highlighted 1) shown) 0
       \<noteq> Some (DivIcon Highlighted 1)
   \<and> mapInstanceRef (highlightMarker None (DivIcon Default 0) (DivIcon Highlighted 1) shown)
       = mapInstanceRef shown"
  using C3_highlight_pass [OF shown_wf shown_mapInstanceRef, of "Some ''p2''" "DivIcon Default 0" "DivIcon Highlighted 1"]
    C3_highlight_pass [OF shown_wf shown_mapInstanceRef, of None "DivIcon Default 0" "DivIcon Highlighted 1"]
    shown_wf shown_heap
  by (simp add: shown_markersRef shown_mapInstanceRef newMarker_def place2_def)

text \<open>
  The claim as stated fails for the empty identifier: it is not null and it names the
  registered marker of the place whose identifier is the empty string, yet the guard
  \<^verbatim>\<open>hoveredPlaceId && ...\<close> is false, so the marker keeps the default icon, its popup
  stays closed and the map is not panned.
\<close>

theorem C3_counterexample:
  "map_of (markersRef shown_unnamed) [] = Some 0
   \<and> iconOf (highlightMarker (Some []) (DivIcon Default 0) (DivIcon Highlighted 1) shown_unnamed) 0
       = Some (DivIcon Default 0)
   \<and> popupOpenOf (highlightMarker (Some []) (DivIcon Default 0) (DivIcon Highlighted 1) shown_unnamed) 0
       = Some False
   \<and> mapInstanceRef (highlightMarker (Some []) (DivIcon Default 0) (DivIcon Highlighted 1) shown_unnamed)
       = mapInstanceRef shown_unnamed"
  by (simp add: shown_unnamed_def model_defs all_ok_def unnamed_place_def iconOf_def popupOpenOf_def
      highlightMarker_def resetMarker_def)

lemma removeAll_filter: "removeAll h xs = filter (\<lambda>x. x \<noteq> h) xs"
  by (induction xs) auto

lemma fold_remove:
  "fold remove hs s =
     s\<lparr>mapInstanceRef :=
         map_option (\<lambda>m. m\<lparr>layers := filter (\<lambda>h. h \<notin> set hs) (layers m)\<rparr>) (mapInstanceRef s)\<rparr>"
proof (induction hs arbitrary: s)
  case Nil
  then show ?case by (cases "mapInstanceRef s") simp_all
next
  case (Cons h hs)
  have "fold remove (h # hs) s = fold remove hs (remove h s)" by simp
  also have "\<dots> = (remove h s)\<lparr>mapInstanceRef :=
         map_option (\<lambda>m. m\<lparr>layers := filter (\<lambda>h. h \<notin> set hs) (layers m)\<rparr>)
           (mapInstanceRef (remove h s))\<rparr>"
    by (rule Cons.IH)
  also have "\<dots> = s\<lparr>mapInstanceRef :=
         map_option (\<lambda>m. m\<lparr>layers := filter (\<lambda>h'. h' \<notin> set (h # hs)) (layers m)\<rparr>)
           (mapInstanceRef s)\<rparr>"
    by (cases "mapInstanceRef s")
      (simp_all add: remove_def removeAll_filter)
  finally show ?case .
qed

lemma clearMarkers_eq:
  "clearMarkers s =
     s\<lparr>mapInstanceRef :=
         map_option (\<lambda>m. m\<lparr>layers := filter (\<lambda>h. h \<notin> snd ` set (markersRef s)) (layers m)\<rparr>)
           (mapInstanceRef s),
       markersRef := []\<rparr>"
  by (simp add: clearMarkers_def fold_remove)

lemma fold_placeMarker:
  "fold (placeMarker d) ps s =
     s\<lparr>heap := placedHeap d ps (nextHandle s) (heap s),
       nextHandle := nextHandle s + length ps,
       mapInstanceRef :=
         map_option (\<lambda>m. m\<lparr>layers := layers m @ [nextHandle s..<nextHandle s + length ps]\<rparr>)
           (mapInstanceRef s),
       markersRef := registered ps (nextHandle s) (markersRef s)\<rparr>"
proof (induction ps arbitrary: s)
  case Nil
  then show ?case by (cases "mapInstanceRef s") simp_all
next
  case (Cons p ps)
  let ?t = "placeMarker d p s"
  have "fold (placeMarker d) (p # ps) s = fold (placeMarker d) ps ?t" by simp
  also have "\<dots> = ?t\<lparr>heap := placedHeap d ps (nextHandle ?t) (heap ?t),
       nextHandle := nextHandle ?t + length ps,
       mapInstanceRef :=
         map_option (\<lambda>m. m\<lparr>layers := layers m @ [nextHandle ?t..<nextHandle ?t + length ps]\<rparr>)
           (mapInstanceRef ?t),
       markersRef := registered ps (nextHandle ?t) (markersRef ?t)\<rparr>"
    by (rule Cons.IH)
  also have "\<dots> = s\<lparr>heap := placedHeap d (p # ps) (nextHandle s) (heap s),
       nextHandle := nextHandle s + length (p # ps),
       mapInstanceRef :=
         map_option (\<lambda>m. m\<lparr>layers := layers m @ [nextHandle s..<nextHandle s + length (p # ps)]\<rparr>)
           (mapInstanceRef s),
       markersRef := registered (p # ps) (nextHandle s) (markersRef s)\<rparr>"
    by (cases "mapInstanceRef s")
      (simp_all add: placeMarker_def Let_def upt_conv_Cons del: upt_Suc)
  finally show ?case .
qed

lemma addMarkers_Inr:
  "addMarkers L d ps s = Inr s' \<Longrightarrow> s' = fold (placeMarker d) ps s"
proof (induction ps arbitrary: s)
  case Nil
  then show ?case by simp
next
  case (Cons p ps)
  then show ?case by (simp split: if_splits)
qed

lemma addMarkers_Inl:
  "addMarkers L d ps s = Inl (e, s') \<Longrightarrow> \<exists>k. s' = fold (placeMarker d) (take k ps) s"
proof (induction ps arbitrary: s)
  case Nil
  then show ?case by simp
next
  case (Cons p ps)
  show ?case
  proof (cases "\<not> marker_ok L (location p) \<or> mapInstanceRef s = None")
    case True
    with Cons.prems have "s' = s" by (auto split: if_splits)
    then have "s' = fold (placeMarker d) (take 0 (p # ps)) s" by simp
    then show ?thesis by blast
  next
    case False
    with Cons.prems have "addMarkers L d ps (placeMarker d p s) = Inl (e, s')" by auto
    from Cons.IH [OF this] obtain k where "s' = fold (placeMarker d) (take k ps) (placeMarker d p s)"
      by blast
    then have "s' = fold (placeMarker d) (take (Suc k) (p # ps)) s" by simp
    then show ?thesis by blast
  qed
qed

lemma placedHeap_apply:
  "placedHeap d ps n hp h =
     (if n \<le> h \<and> h < n + length ps then Some (newMarker d (ps ! (h - n))) else hp h)"
proof (induction ps arbitrary: n hp)
  case Nil
  then show ?case by auto
next
  case (Cons p ps)
  show ?case
    by (auto simp add: Cons.IH Suc_diff_le nth_Cons')
qed



lemma registered_distinct_keys:
  "distinct (map fst r) \<Longrightarrow> distinct (map fst (registered ps n r))"
  by (induction ps arbitrary: n r) (simp_all add: distinct_update)


lemma update_values:
  "snd ` set (AList.update k v r) \<subseteq> insert v (snd ` set r)"
  by (induction r) auto

lemma update_distinct_values:
  "distinct (map snd r) \<Longrightarrow> v \<notin> snd ` set r \<Longrightarrow> distinct (map snd (AList.update k v r))"
proof (induction r)
  case Nil
  then show ?case by simp
next
  case (Cons a r)
  then show ?case
    using update_values [of k v r] by (auto simp add: image_iff)
qed

lemma registered_values:
  "snd ` set (registered ps n r) \<subseteq> snd ` set r \<union> {n..<n + length ps}"
proof (induction ps arbitrary: n r)
  case Nil
  then show ?case by simp
next
  case (Cons p ps)
  have "snd ` set (registered (p # ps) n r)
          \<subseteq> insert n (snd ` set r) \<union> {Suc n..<Suc n + length ps}"
    using Cons.IH [of "Suc n" "AList.update (place_id p) n r"] update_values [of "place_id p" n r]
    by (simp del: atLeastLessThan_iff) blast
  also have "\<dots> = snd ` set r \<union> {n..<n + length (p # ps)}"
    by auto
  finally show ?case .
qed

lemma registered_distinct_values:
  "distinct (map snd r) \<Longrightarrow> \<forall>h\<in>snd ` set r. h < n \<Longrightarrow> distinct (map snd (registered ps n r))"
proof (induction ps arbitrary: n r)
  case Nil
  then show ?case by simp
next
  case (Cons p ps)
  have d: "distinct (map snd (AList.update (place_id p) n r))"
    using Cons.prems by (intro update_distinct_values) auto
  have b: "\<forall>h\<in>snd ` set (AList.update (place_id p) n r). h < Suc n"
    using Cons.prems(2) update_values [of "place_id p" n r] by fastforce
  show ?case
    using Cons.IH [OF d b] by simp
qed

lemma rebuilt_eq:
  "rebuilt d ps s =
     s\<lparr>heap := placedHeap d ps (nextHandle s) (heap s),
       nextHandle := nextHandle s + length ps,
       mapInstanceRef :=
         map_option (\<lambda>m. m\<lparr>layers := filter (\<lambda>h. h \<notin> snd ` set (markersRef s)) (layers m)
                                         @ [nextHandle s..<nextHandle s + length ps]\<rparr>)
           (mapInstanceRef s),
       markersRef := registered ps (nextHandle s) []\<rparr>"
  by (cases "mapInstanceRef s") (simp_all add: rebuilt_def fold_placeMarker clearMarkers_eq)

lemma fitBounds_cases:
  "fitBounds L s = Inl (e, s') \<Longrightarrow> s' = s"
  "fitBounds L s = Inr s' \<Longrightarrow>
     \<exists>m b. mapInstanceRef s = Some m \<and> getBounds (markerLatLngs s) = Some b
         \<and> s' = s\<lparr>mapInstanceRef := Some (m\<lparr>view_calls := view_calls m @ [FitBounds b (50, 50)]\<rparr>)\<rparr>"
  by (auto simp add: fitBounds_def split: option.splits if_splits)

lemma updateMarkers_try_Inr:
  assumes "updateMarkers_try ok L ps d s = Inr s'"
  shows "(ps = [] \<and> s' = rebuilt d ps s)
       \<or> (ps \<noteq> [] \<and> (\<exists>m b. mapInstanceRef (rebuilt d ps s) = Some m
              \<and> getBounds (markerLatLngs (rebuilt d ps s)) = Some b
              \<and> s' = (rebuilt d ps s)\<lparr>mapInstanceRef :=
                         Some (m\<lparr>view_calls := view_calls m @ [FitBounds b (50, 50)]\<rparr>)\<rparr>))"
proof -
  from assms obtain s2 where a: "addMarkers L d ps (clearMarkers s) = Inr s2"
    and f: "(if length ps > 0 then fitBounds L s2 else Inr s2) = Inr s'"
    by (auto simp add: updateMarkers_try_def split: if_splits sum.splits)
  from addMarkers_Inr [OF a] have s2: "s2 = rebuilt d ps s" by (simp add: rebuilt_def)
  show ?thesis
  proof (cases "ps = []")
    case True
    with f s2 show ?thesis by simp
  next
    case False
    with f have "fitBounds L s2 = Inr s'" by simp
    from fitBounds_cases(2) [OF this] False s2 show ?thesis by auto
  qed
qed

lemma updateMarkers_try_Inl:
  assumes "updateMarkers_try ok L ps d s = Inl (e, s')"
  shows "s' = s \<or> (\<exists>k. s' = rebuilt d (take k ps) s)"
proof (cases ok)
  case False
  with assms show ?thesis by (simp add: updateMarkers_try_def)
next
  case True
  show ?thesis
  proof (cases "addMarkers L d ps (clearMarkers s)")
    case (Inl x)
    with assms True have "addMarkers L d ps (clearMarkers s) = Inl (e, s')"
      by (simp add: updateMarkers_try_def)
    from addMarkers_Inl [OF this] show ?thesis by (auto simp add: rebuilt_def)
  next
    case (Inr s2)
    with assms True have "fitBounds L s2 = Inl (e, s')"
      by (simp add: updateMarkers_try_def split: if_splits)
    from fitBounds_cases(1) [OF this] addMarkers_Inr [OF Inr]
    have "s' = rebuilt d (take (length ps) ps) s" by (simp add: rebuilt_def)
    then show ?thesis by blast
  qed
qed

lemma registered_handles:
  "e \<in> set (registered ps n []) \<Longrightarrow> n \<le> snd e \<and> snd e < n + length ps"
  using registered_values [of ps n "[]"] by auto

lemma rebuilt_registered_heap:
  assumes "e \<in> set (markersRef (rebuilt d ps s))"
  shows "heap (rebuilt d ps s) (snd e) = Some (newMarker d (ps ! (snd e - nextHandle s)))"
  using assms registered_handles [of e ps "nextHandle s"]
  by (simp add: rebuilt_eq placedHeap_apply)

lemma rebuilt_wf: "registry_wf (rebuilt d ps s)"
proof -
  have "distinct (map fst (registered ps (nextHandle s) []))"
    by (rule registered_distinct_keys) simp
  moreover have "distinct (map snd (registered ps (nextHandle s) []))"
    by (rule registered_distinct_values) simp_all
  moreover have "\<forall>e\<in>set (markersRef (rebuilt d ps s)). heap (rebuilt d ps s) (snd e) \<noteq> None"
    using rebuilt_registered_heap by simp
  ultimately show ?thesis
    by (simp add: registry_wf_def rebuilt_eq)
qed

lemma map_nth_upt_shift: "map (\<lambda>h. f (ps ! (h - n))) [n..<n + length ps] = map f ps"
  by (rule nth_equalityI) simp_all




lemma sync_completes_resume:
  "sync_completes ok L ps d s \<Longrightarrow> updateMarkers_try ok L ps d s = Inr (updateMarkers_resume ok L ps d s)"
  by (simp add: sync_completes_def updateMarkers_resume_def split: sum.splits)

lemma resume_form:
  assumes c: "sync_completes ok L ps d s"
  shows "\<exists>vc. updateMarkers_resume ok L ps d s =
            (rebuilt d ps s)\<lparr>mapInstanceRef :=
               map_option (\<lambda>m. m\<lparr>view_calls := view_calls m @ vc\<rparr>) (mapInstanceRef (rebuilt d ps s))\<rparr>
          \<and> (ps = [] \<longrightarrow> vc = [])
          \<and> (ps \<noteq> [] \<longrightarrow> mapInstanceRef (rebuilt d ps s) \<noteq> None
                \<and> (\<exists>b. getBounds (markerLatLngs (rebuilt d ps s)) = Some b \<and> vc = [FitBounds b (50, 50)]))"
proof -
  let ?s' = "updateMarkers_resume ok L ps d s"
  let ?r = "rebuilt d ps s"
  note t = updateMarkers_try_Inr [OF sync_completes_resume [OF c]]
  show ?thesis
  proof (cases "ps = []")
    case True
    with t have "?s' = ?r" by simp
    then have "?s' = ?r\<lparr>mapInstanceRef :=
        map_option (\<lambda>m. m\<lparr>view_calls := view_calls m @ []\<rparr>) (mapInstanceRef ?r)\<rparr>"
      by (cases "mapInstanceRef ?r") simp_all
    with True show ?thesis by blast
  next
    case False
    with t obtain m b where m: "mapInstanceRef ?r = Some m"
      and b: "getBounds (markerLatLngs ?r) = Some b"
      and e: "?s' = ?r\<lparr>mapInstanceRef := Some (m\<lparr>view_calls := view_calls m @ [FitBounds b (50, 50)]\<rparr>)\<rparr>"
      by blast
    from e m have "?s' = ?r\<lparr>mapInstanceRef :=
        map_option (\<lambda>m. m\<lparr>view_calls := view_calls m @ [FitBounds b (50, 50)]\<rparr>) (mapInstanceRef ?r)\<rparr>"
      by simp
    with False m b show ?thesis by blast
  qed
qed














section \<open>The invariant holds in every reachable state\<close>

lemma initEffect_cleanup_same [simp]:
  "places (initEffect_cleanup s) = places s"
  "center (initEffect_cleanup s) = center s"
  "zoom (initEffect_cleanup s) = zoom s"
  "hoveredPlaceId (initEffect_cleanup s) = hoveredPlaceId s"
  "mapRef (initEffect_cleanup s) = mapRef s"
  "mapInstanceRef (initEffect_cleanup s) = mapInstanceRef s"
  "markersRef (initEffect_cleanup s) = markersRef s"
  "defaultIcon (initEffect_cleanup s) = defaultIcon s"
  "highlightedIcon (initEffect_cleanup s) = highlightedIcon s"
  "isMapInitialized (initEffect_cleanup s) = isMapInitialized s"
  "heap (initEffect_cleanup s) = heap s"
  "nextHandle (initEffect_cleanup s) = nextHandle s"
  "nextIcon (initEffect_cleanup s) = nextIcon s"
  "console (initEffect_cleanup s) = console s"
  "toasts (initEffect_cleanup s) = toasts s"
  "uncaught (initEffect_cleanup s) = uncaught s"
  "frames (initEffect_cleanup s) = frames s"
  "nextFrame (initEffect_cleanup s) = nextFrame s"
  "syncCalls (initEffect_cleanup s) = syncCalls s"
  "nextTask (initEffect_cleanup s) = nextTask s"
  "initCleanup (initEffect_cleanup s) = initCleanup s"
  "hoverCleanup (initEffect_cleanup s) = hoverCleanup s"
  "initDeps (initEffect_cleanup s) = initDeps s"
  "markerDeps (initEffect_cleanup s) = markerDeps s"
  "hoverDeps (initEffect_cleanup s) = hoverDeps s"
  by (simp_all add: initEffect_cleanup_def split: option.splits)

lemma initEffect_body_same [simp]:
  "places (initEffect_body s) = places s"
  "center (initEffect_body s) = center s"
  "zoom (initEffect_body s) = zoom s"
  "hoveredPlaceId (initEffect_body s) = hoveredPlaceId s"
  "mapRef (initEffect_body s) = mapRef s"
  "mapInstanceRef (initEffect_body s) = mapInstanceRef s"
  "markersRef (initEffect_body s) = markersRef s"
  "defaultIcon (initEffect_body s) = defaultIcon s"
  "highlightedIcon (initEffect_body s) = highlightedIcon s"
  "isMapInitialized (initEffect_body s) = isMapInitialized s"
  "heap (initEffect_body s) = heap s"
  "nextHandle (initEffect_body s) = nextHandle s"
  "nextIcon (initEffect_body s) = nextIcon s"
  "console (initEffect_body s) = console s"
  "toasts (initEffect_body s) = toasts s"
  "uncaught (initEffect_body s) = uncaught s"
  "frames (initEffect_body s) = frames s"
  "nextFrame (initEffect_body s) = nextFrame s"
  "syncCalls (initEffect_body s) = syncCalls s"
  "hoverCleanup (initEffect_body s) = hoverCleanup s"
  "markerDeps (initEffect_body s) = markerDeps s"
  "hoverDeps (initEffect_body s) = hoverDeps s"
  by (simp_all add: initEffect_body_def)

lemma updateMarkers_call_same [simp]:
  "places (updateMarkers_call s) = places s"
  "center (updateMarkers_call s) = center s"
  "zoom (updateMarkers_call s) = zoom s"
  "hoveredPlaceId (updateMarkers_call s) = hoveredPlaceId s"
  "mapRef (updateMarkers_call s) = mapRef s"
  "mapInstanceRef (updateMarkers_call s) = mapInstanceRef s"
  "markersRef (updateMarkers_call s) = markersRef s"
  "defaultIcon (updateMarkers_call s) = defaultIcon s"
  "highlightedIcon (updateMarkers_call s) = highlightedIcon s"
  "isMapInitialized (updateMarkers_call s) = isMapInitialized s"
  "heap (updateMarkers_call s) = heap s"
  "nextHandle (updateMarkers_call s) = nextHandle s"
  "nextIcon (updateMarkers_call s) = nextIcon s"
  "console (updateMarkers_call s) = console s"
  "toasts (updateMarkers_call s) = toasts s"
  "uncaught (updateMarkers_call s) = uncaught s"
  "frames (updateMarkers_call s) = frames s"
  "nextFrame (updateMarkers_call s) = nextFrame s"
  "initAttempts (updateMarkers_call s) = initAttempts s"
  "initCleanup (updateMarkers_call s) = initCleanup s"
  "hoverCleanup (updateMarkers_call s) = hoverCleanup s"
  "initDeps (updateMarkers_call s) = initDeps s"
  "markerDeps (updateMarkers_call s) = markerDeps s"
  "hoverDeps (updateMarkers_call s) = hoverDeps s"
  by (simp_all add: updateMarkers_call_def split: option.splits)

lemma markerEffect_body_same [simp]:
  "places (markerEffect_body s) = places s"
  "center (markerEffect_body s) = center s"
  "zoom (markerEffect_body s) = zoom s"
  "hoveredPlaceId (markerEffect_body s) = hoveredPlaceId s"
  "mapRef (markerEffect_body s) = mapRef s"
  "mapInstanceRef (markerEffect_body s) = mapInstanceRef s"
  "markersRef (markerEffect_body s) = markersRef s"
  "defaultIcon (markerEffect_body s) = defaultIcon s"
  "highlightedIcon (markerEffect_body s) = highlightedIcon s"
  "isMapInitialized (markerEffect_body s) = isMapInitialized s"
  "heap (markerEffect_body s) = heap s"
  "nextHandle (markerEffect_body s) = nextHandle s"
  "nextIcon (markerEffect_body s) = nextIcon s"
  "console (markerEffect_body s) = console s"
  "toasts (markerEffect_body s) = toasts s"
  "uncaught (markerEffect_body s) = uncaught s"
  "frames (markerEffect_body s) = frames s"
  "nextFrame (markerEffect_body s) = nextFrame s"
  "initAttempts (markerEffect_body s) = initAttempts s"
  "initCleanup (markerEffect_body s) = initCleanup s"
  "hoverCleanup (markerEffect_body s) = hoverCleanup s"
  "initDeps (markerEffect_body s) = initDeps s"
  "hoverDeps (markerEffect_body s) = hoverDeps s"
  by (simp_all add: markerEffect_body_def updateMarkers_call_def Let_def split: option.splits)

lemma hoverEffect_cleanup_same [simp]:
  "places (hoverEffect_cleanup s) = places s"
  "center (hoverEffect_cleanup s) = center s"
  "zoom (hoverEffect_cleanup s) = zoom s"
  "hoveredPlaceId (hoverEffect_cleanup s) = hoveredPlaceId s"
  "mapRef (hoverEffect_cleanup s) = mapRef s"
  "mapInstanceRef (hoverEffect_cleanup s) = mapInstanceRef s"
  "markersRef (hoverEffect_cleanup s) = markersRef s"
  "defaultIcon (hoverEffect_cleanup s) = defaultIcon s"
  "highlightedIcon (hoverEffect_cleanup s) = highlightedIcon s"
  "isMapInitialized (hoverEffect_cleanup s) = isMapInitialized s"
  "heap (hoverEffect_cleanup s) = heap s"
  "nextHandle (hoverEffect_cleanup s) = nextHandle s"
  "nextIcon (hoverEffect_cleanup s) = nextIcon s"
  "console (hoverEffect_cleanup s) = console s"
  "toasts (hoverEffect_cleanup s) = toasts s"
  "uncaught (hoverEffect_cleanup s) = uncaught s"
  "nextFrame (hoverEffect_cleanup s) = nextFrame s"
  "initAttempts (hoverEffect_cleanup s) = initAttempts s"
  "syncCalls (hoverEffect_cleanup s) = syncCalls s"
  "nextTask (hoverEffect_cleanup s) = nextTask s"
  "initCleanup (hoverEffect_cleanup s) = initCleanup s"
  "hoverCleanup (hoverEffect_cleanup s) = hoverCleanup s"
  "initDeps (hoverEffect_cleanup s) = initDeps s"
  "markerDeps (hoverEffect_cleanup s) = markerDeps s"
  "hoverDeps (hoverEffect_cleanup s) = hoverDeps s"
  by (simp_all add: hoverEffect_cleanup_def split: option.splits)

lemma hoverEffect_body_same [simp]:
  "places (hoverEffect_body s) = places s"
  "center (hoverEffect_body s) = center s"
  "zoom (hoverEffect_body s) = zoom s"
  "hoveredPlaceId (hoverEffect_body s) = hoveredPlaceId s"
  "mapRef (hoverEffect_body s) = mapRef s"
  "mapInstanceRef (hoverEffect_body s) = mapInstanceRef s"
  "markersRef (hoverEffect_body s) = markersRef s"
  "defaultIcon (hoverEffect_body s) = defaultIcon s"
  "highlightedIcon (hoverEffect_body s) = highlightedIcon s"
  "isMapInitialized (hoverEffect_body s) = isMapInitialized s"
  "heap (hoverEffect_body s) = heap s"
  "nextHandle (hoverEffect_body s) = nextHandle s"
  "nextIcon (hoverEffect_body s) = nextIcon s"
  "console (hoverEffect_body s) = console s"
  "toasts (hoverEffect_body s) = toasts s"
  "uncaught (hoverEffect_body s) = uncaught s"
  "initAttempts (hoverEffect_body s) = initAttempts s"
  "syncCalls (hoverEffect_body s) = syncCalls s"
  "nextTask (hoverEffect_body s) = nextTask s"
  "initCleanup (hoverEffect_body s) = initCleanup s"
  "initDeps (hoverEffect_body s) = initDeps s"
  "markerDeps (hoverEffect_body s) = markerDeps s"
  by (simp_all add: hoverEffect_body_def Let_def split: option.splits)

lemmas inv_defs = inv_def inv_heap_def inv_map_def inv_icons_def inv_init_def inv_sync_def
  inv_frames_def registry_wf_def variantOf_def mapLayers_def

lemma inv_mounted: "inv mounted"
  by (simp add: inv_defs mounted_def)

lemma inv_heap_cong:
  "markersRef s' = markersRef s \<Longrightarrow> heap s' = heap s \<Longrightarrow> nextHandle s' = nextHandle s \<Longrightarrow>
   inv_heap s' = inv_heap s"
  by (simp add: inv_heap_def registry_wf_def)

lemma inv_map_cong:
  "mapInstanceRef s' = mapInstanceRef s \<Longrightarrow> isMapInitialized s' = isMapInitialized s \<Longrightarrow>
   markersRef s' = markersRef s \<Longrightarrow> frames s' = frames s \<Longrightarrow> syncCalls s' = syncCalls s \<Longrightarrow>
   defaultIcon s' = defaultIcon s \<Longrightarrow> highlightedIcon s' = highlightedIcon s \<Longrightarrow>
   nextHandle s' = nextHandle s \<Longrightarrow> heap s' = heap s \<Longrightarrow>
   inv_map s' = inv_map s"
  by (simp add: inv_map_def variantOf_def mapLayers_def)

lemma inv_icons_cong:
  "defaultIcon s' = defaultIcon s \<Longrightarrow> highlightedIcon s' = highlightedIcon s \<Longrightarrow>
   syncCalls s' = syncCalls s \<Longrightarrow> frames s' = frames s \<Longrightarrow>
   inv_icons s' = inv_icons s"
  by (simp add: inv_icons_def)

lemma inv_init_cong:
  "initAttempts s' = initAttempts s \<Longrightarrow> nextTask s' = nextTask s \<Longrightarrow>
   initCleanup s' = initCleanup s \<Longrightarrow> isMapInitialized s' = isMapInitialized s \<Longrightarrow>
   inv_init s' = inv_init s"
  by (simp add: inv_init_def)

lemma inv_sync_cong:
  "syncCalls s' = syncCalls s \<Longrightarrow> nextTask s' = nextTask s \<Longrightarrow>
   markerDeps s' = markerDeps s \<Longrightarrow> isMapInitialized s' = isMapInitialized s \<Longrightarrow>
   inv_sync s' = inv_sync s"
  by (simp add: inv_sync_def)

lemma inv_frames_cong:
  "frames s' = frames s \<Longrightarrow> nextFrame s' = nextFrame s \<Longrightarrow> hoverCleanup s' = hoverCleanup s \<Longrightarrow>
   inv_frames s' = inv_frames s"
  by (simp add: inv_frames_def)

lemmas inv_congs = inv_heap_cong inv_map_cong inv_icons_cong inv_init_cong inv_sync_cong
  inv_frames_cong

lemma inv_props:
  "inv (s\<lparr>places := ps, center := c, zoom := z, hoveredPlaceId := hov\<rparr>) = inv s"
  by (simp add: inv_defs)

lemma map_fst_unmount:
  "map (fst \<circ> (\<lambda>a. if fst a = k then (fst a, False, snd (snd a)) else a)) xs = map fst xs"
  by (induction xs) auto

lemma inv_initEffect_cleanup:
  assumes "inv s"
  shows "inv (initEffect_cleanup s)" and "unmounted (initEffect_cleanup s)"
proof -
  let ?t = "initEffect_cleanup s"
  from assms have i: "inv_init s" by (simp add: inv_def)
  have a: "inv_init ?t \<and> unmounted ?t"
  proof (cases "initCleanup s")
    case None
    with i show ?thesis
      by (auto simp add: inv_init_def unmounted_def initEffect_cleanup_def)
  next
    case (Some k)
    then have e: "initAttempts ?t
        = map (\<lambda>a. if fst a = k then (fst a, False, snd (snd a)) else a) (initAttempts s)"
      by (simp add: initEffect_cleanup_def)
    from i Some show ?thesis
      by (auto simp add: inv_init_def unmounted_def e map_fst_unmount)
  qed
  show "unmounted ?t" using a by simp
  show "inv ?t"
    using assms a
    by (simp add: inv_def inv_heap_cong [of ?t s] inv_map_cong [of ?t s] inv_icons_cong [of ?t s]
        inv_sync_cong [of ?t s] inv_frames_cong [of ?t s])
qed

lemma inv_hoverEffect_cleanup:
  assumes "inv s"
  shows "inv (hoverEffect_cleanup s)" and "frames (hoverEffect_cleanup s) = []"
proof -
  let ?t = "hoverEffect_cleanup s"
  from assms have f: "inv_frames s" and m: "inv_map s" and ic: "inv_icons s" by (simp_all add: inv_def)
  have e: "frames ?t = []"
  proof (cases "hoverCleanup s")
    case None
    have "frames s = []"
    proof (rule ccontr)
      assume "frames s \<noteq> []"
      then have "hd (frames s) \<in> set (frames s)" by simp
      with f have "hoverCleanup s = Some (fst (hd (frames s)))" unfolding inv_frames_def by blast
      with None show False by simp
    qed
    with None show ?thesis by (simp add: hoverEffect_cleanup_def)
  next
    case (Some k)
    with f have "\<forall>x\<in>set (frames s). fst x = k" by (auto simp add: inv_frames_def)
    then have "filter (\<lambda>x. fst x \<noteq> k) (frames s) = []" by (simp add: filter_empty_conv)
    with Some show ?thesis by (simp add: hoverEffect_cleanup_def)
  qed
  show "frames ?t = []" by (rule e)
  have "inv_frames ?t" by (simp add: inv_frames_def e)
  moreover have "inv_icons ?t" using ic by (simp add: inv_icons_def e)
  moreover have "inv_map ?t" using m by (simp add: inv_map_def e variantOf_def mapLayers_def)
  ultimately show "inv ?t"
    using assms
    by (simp add: inv_def inv_heap_cong [of ?t s] inv_init_cong [of ?t s] inv_sync_cong [of ?t s])
qed

lemma unmounted_hoverEffect_cleanup: "unmounted (hoverEffect_cleanup s) = unmounted s"
  by (simp add: unmounted_def)

lemma inv_initEffect_body:
  assumes "inv s" and "unmounted s"
  shows "inv (initEffect_body s)"
proof -
  let ?t = "initEffect_body s"
  from assms have i: "inv_init s" and sy: "inv_sync s" by (simp_all add: inv_def)
  have "inv_init ?t"
    using i assms(2) by (fastforce simp add: inv_init_def unmounted_def initEffect_body_def)
  moreover have "inv_sync ?t"
    using sy by (fastforce simp add: inv_sync_def initEffect_body_def)
  ultimately show ?thesis
    using assms(1)
    by (simp add: inv_def inv_heap_cong [of ?t s] inv_map_cong [of ?t s] inv_icons_cong [of ?t s]
        inv_frames_cong [of ?t s])
qed

lemma inv_markerEffect_body:
  assumes "inv s"
  shows "inv (markerEffect_body s)"
proof -
  let ?t = "markerEffect_body s"
  from assms have i: "inv_init s" and sy: "inv_sync s" and m: "inv_map s" and ic: "inv_icons s"
    by (simp_all add: inv_def)
  have "inv_init ?t"
    using i by (fastforce simp add: inv_init_def markerEffect_body_def updateMarkers_call_def Let_def
        split: option.splits)
  moreover have "inv_sync ?t"
    using sy by (fastforce simp add: inv_sync_def markerEffect_body_def updateMarkers_call_def Let_def
        split: option.splits)
  moreover have "inv_icons ?t"
    using ic by (auto simp add: inv_icons_def markerEffect_body_def updateMarkers_call_def Let_def
        split: option.splits)
  moreover have "inv_map ?t"
    using m by (auto simp add: inv_map_def variantOf_def mapLayers_def markerEffect_body_def
        updateMarkers_call_def Let_def split: option.splits)
  ultimately show ?thesis
    using assms
    by (simp add: inv_def inv_heap_cong [of ?t s] inv_frames_cong [of ?t s])
qed

lemma inv_hoverEffect_body:
  assumes "inv s" and "frames s = []"
  shows "inv (hoverEffect_body s)"
proof -
  let ?t = "hoverEffect_body s"
  from assms have m: "inv_map s" and ic: "inv_icons s"
    by (simp_all add: inv_def)
  have "inv_frames ?t"
    using assms(2) by (auto simp add: inv_frames_def hoverEffect_body_def Let_def split: option.splits)
  moreover have "inv_icons ?t"
    using ic assms(2) by (auto simp add: inv_icons_def hoverEffect_body_def Let_def split: option.splits)
  moreover have "inv_map ?t"
    using m assms(2) by (auto simp add: inv_map_def variantOf_def mapLayers_def hoverEffect_body_def
        Let_def split: option.splits)
  ultimately show ?thesis
    using assms(1)
    by (simp add: inv_def inv_heap_cong [of ?t s] inv_init_cong [of ?t s] inv_sync_cong [of ?t s])
qed

lemma inv_render:
  assumes "inv s"
  shows "inv (render ps pf c cf z hov s)"
proof -
  define ri where "ri = (cf \<or> c \<noteq> center s \<or> initDeps s \<noteq> Some (z, isMapInitialized s))"
  define rm where "rm = (pf \<or> markerDeps s \<noteq> Some (ps, defaultIcon s, isMapInitialized s))"
  define rh where "rh = (hoverDeps s \<noteq> Some (hov, defaultIcon s, highlightedIcon s))"
  define s0 where "s0 = s\<lparr>places := ps, center := c, zoom := z, hoveredPlaceId := hov\<rparr>"
  define s1 where "s1 = (if ri then initEffect_cleanup s0 else s0)"
  define s2 where "s2 = (if rh then hoverEffect_cleanup s1 else s1)"
  define s3 where "s3 = (if ri then initEffect_body s2 else s2)"
  define s4 where "s4 = (if rm then markerEffect_body s3 else s3)"
  have e: "render ps pf c cf z hov s = (if rh then hoverEffect_body s4 else s4)"
    by (simp add: render_def Let_def ri_def rm_def rh_def s0_def s1_def s2_def s3_def s4_def)
  have i0: "inv s0" using assms by (simp add: s0_def inv_props)
  have i1: "inv s1" and u1: "ri \<longrightarrow> unmounted s1"
    using i0 by (simp_all add: s1_def inv_initEffect_cleanup)
  have i2: "inv s2" and f2: "rh \<longrightarrow> frames s2 = []" and u2: "ri \<longrightarrow> unmounted s2"
    using i1 u1 by (simp_all add: s2_def inv_hoverEffect_cleanup unmounted_hoverEffect_cleanup)
  have i3: "inv s3" and f3: "rh \<longrightarrow> frames s3 = []"
    using i2 f2 u2 by (simp_all add: s3_def inv_initEffect_body)
  have i4: "inv s4" and f4: "rh \<longrightarrow> frames s4 = []"
    using i3 f3 by (simp_all add: s4_def inv_markerEffect_body)
  show ?thesis
    using i4 f4 by (simp add: e inv_hoverEffect_body)
qed

lemma highlightMarker_same [simp]:
  "places (highlightMarker hov d hl s) = places s"
  "center (highlightMarker hov d hl s) = center s"
  "zoom (highlightMarker hov d hl s) = zoom s"
  "hoveredPlaceId (highlightMarker hov d hl s) = hoveredPlaceId s"
  "mapRef (highlightMarker hov d hl s) = mapRef s"
  "defaultIcon (highlightMarker hov d hl s) = defaultIcon s"
  "highlightedIcon (highlightMarker hov d hl s) = highlightedIcon s"
  "isMapInitialized (highlightMarker hov d hl s) = isMapInitialized s"
  "nextHandle (highlightMarker hov d hl s) = nextHandle s"
  "nextIcon (highlightMarker hov d hl s) = nextIcon s"
  "console (highlightMarker hov d hl s) = console s"
  "toasts (highlightMarker hov d hl s) = toasts s"
  "frames (highlightMarker hov d hl s) = frames s"
  "nextFrame (highlightMarker hov d hl s) = nextFrame s"
  "initAttempts (highlightMarker hov d hl s) = initAttempts s"
  "syncCalls (highlightMarker hov d hl s) = syncCalls s"
  "nextTask (highlightMarker hov d hl s) = nextTask s"
  "initCleanup (highlightMarker hov d hl s) = initCleanup s"
  "hoverCleanup (highlightMarker hov d hl s) = hoverCleanup s"
  "initDeps (highlightMarker hov d hl s) = initDeps s"
  "markerDeps (highlightMarker hov d hl s) = markerDeps s"
  "hoverDeps (highlightMarker hov d hl s) = hoverDeps s"
  by (simp_all add: highlightMarker_eq panTo_def openPopup_def setIcon_def Let_def split: option.splits)

lemma rebuilt_same [simp]:
  "places (rebuilt d ps s) = places s"
  "center (rebuilt d ps s) = center s"
  "zoom (rebuilt d ps s) = zoom s"
  "hoveredPlaceId (rebuilt d ps s) = hoveredPlaceId s"
  "mapRef (rebuilt d ps s) = mapRef s"
  "defaultIcon (rebuilt d ps s) = defaultIcon s"
  "highlightedIcon (rebuilt d ps s) = highlightedIcon s"
  "isMapInitialized (rebuilt d ps s) = isMapInitialized s"
  "nextIcon (rebuilt d ps s) = nextIcon s"
  "console (rebuilt d ps s) = console s"
  "toasts (rebuilt d ps s) = toasts s"
  "uncaught (rebuilt d ps s) = uncaught s"
  "frames (rebuilt d ps s) = frames s"
  "nextFrame (rebuilt d ps s) = nextFrame s"
  "initAttempts (rebuilt d ps s) = initAttempts s"
  "syncCalls (rebuilt d ps s) = syncCalls s"
  "nextTask (rebuilt d ps s) = nextTask s"
  "initCleanup (rebuilt d ps s) = initCleanup s"
  "hoverCleanup (rebuilt d ps s) = hoverCleanup s"
  "initDeps (rebuilt d ps s) = initDeps s"
  "markerDeps (rebuilt d ps s) = markerDeps s"
  "hoverDeps (rebuilt d ps s) = hoverDeps s"
  by (simp_all add: rebuilt_eq)

lemma inv_map_cong':
  "(mapInstanceRef s' = None) = (mapInstanceRef s = None) \<Longrightarrow> mapLayers s' = mapLayers s \<Longrightarrow>
   isMapInitialized s' = isMapInitialized s \<Longrightarrow>
   markersRef s' = markersRef s \<Longrightarrow> frames s' = frames s \<Longrightarrow> syncCalls s' = syncCalls s \<Longrightarrow>
   defaultIcon s' = defaultIcon s \<Longrightarrow> highlightedIcon s' = highlightedIcon s \<Longrightarrow>
   nextHandle s' = nextHandle s \<Longrightarrow> heap s' = heap s \<Longrightarrow>
   inv_map s' = inv_map s"
  by (simp add: inv_map_def variantOf_def)

lemma initializeMap_resume_cases:
  "initializeMap_resume ok L mo ca c z t =
     (if \<not> ok then
        t\<lparr>console := console t @ [''Error initializing map:''],
          toasts := toasts t @ [ToastError ''Failed to load map. Please refresh the page.'']\<rparr>
      else if \<not> mo \<or> \<not> mapRef t \<or> ca then t
      else if \<not> divIcon_ok L then
        t\<lparr>console := console t @ [''Error initializing map:''],
          toasts := toasts t @ [ToastError ''Failed to load map. Please refresh the page.'']\<rparr>
      else if \<not> map_ok L \<or> \<not> tileLayer_ok L \<or> \<not> addClass_ok L then
        t\<lparr>defaultIcon := Some (DivIcon Default (nextIcon t)),
          highlightedIcon := Some (DivIcon Highlighted (Suc (nextIcon t))),
          nextIcon := Suc (Suc (nextIcon t)),
          console := console t @ [''Error initializing map:''],
          toasts := toasts t @ [ToastError ''Failed to load map. Please refresh the page.'']\<rparr>
      else if \<not> addControl_ok L then
        t\<lparr>defaultIcon := Some (DivIcon Default (nextIcon t)),
          highlightedIcon := Some (DivIcon Highlighted (Suc (nextIcon t))),
          nextIcon := Suc (Suc (nextIcon t)),
          mapInstanceRef := Some \<lparr>layers = [], view_calls = [SetView c z], tileLayer = True,
                                  containerClass = True, zoomControl = False\<rparr>,
          isMapInitialized := True,
          console := console t @ [''Error initializing map:''],
          toasts := toasts t @ [ToastError ''Failed to load map. Please refresh the page.'']\<rparr>
      else
        t\<lparr>defaultIcon := Some (DivIcon Default (nextIcon t)),
          highlightedIcon := Some (DivIcon Highlighted (Suc (nextIcon t))),
          nextIcon := Suc (Suc (nextIcon t)),
          mapInstanceRef := Some \<lparr>layers = [], view_calls = [SetView c z], tileLayer = True,
                                  containerClass = True, zoomControl = True\<rparr>,
          isMapInitialized := True\<rparr>)"
  by (simp add: initializeMap_resume_def initializeMap_try_def Let_def)

lemma inv_logs:
  "inv (s\<lparr>console := cs\<rparr>) = inv s"
  "inv (s\<lparr>console := cs, toasts := ts\<rparr>) = inv s"
  by (simp_all add: inv_defs)

lemma inv_drop_attempt:
  assumes "inv s"
  shows "inv (s\<lparr>initAttempts := filter (\<lambda>e. fst e \<noteq> k) (initAttempts s)\<rparr>)"
proof -
  let ?t = "s\<lparr>initAttempts := filter (\<lambda>e. fst e \<noteq> k) (initAttempts s)\<rparr>"
  from assms have "inv_init s" by (simp add: inv_def)
  then have "inv_init ?t" by (auto simp add: inv_init_def distinct_map_filter)
  then show ?thesis
    using assms
    by (simp add: inv_def inv_heap_cong [of ?t s] inv_map_cong [of ?t s] inv_icons_cong [of ?t s]
        inv_sync_cong [of ?t s] inv_frames_cong [of ?t s])
qed

lemma mounted_attempt_unique:
  assumes i: "inv_init s" and a: "map_of (initAttempts s) k = Some a" and mo: "fst a"
  shows "unmounted (s\<lparr>initAttempts := filter (\<lambda>e. fst e \<noteq> k) (initAttempts s)\<rparr>)"
    and "isMapInitialized s \<longrightarrow> fst (snd a)"
proof -
  from a have mem: "(k, a) \<in> set (initAttempts s)" by (rule map_of_SomeD)
  with i mo have c: "initCleanup s = Some k" and "isMapInitialized s \<longrightarrow> fst (snd a)"
    by (auto simp add: inv_init_def)
  then show "isMapInitialized s \<longrightarrow> fst (snd a)" by simp
  show "unmounted (s\<lparr>initAttempts := filter (\<lambda>e. fst e \<noteq> k) (initAttempts s)\<rparr>)"
    using i c by (auto simp add: unmounted_def inv_init_def)
qed

lemma inv_after_init:
  assumes t: "inv t" and un: "unmounted t" and none: "mapInstanceRef t = None"
    and u: "markersRef u = markersRef t" "heap u = heap t" "nextHandle u = nextHandle t"
      "frames u = frames t" "syncCalls u = syncCalls t" "nextFrame u = nextFrame t"
      "hoverCleanup u = hoverCleanup t" "initAttempts u = initAttempts t" "nextTask u = nextTask t"
      "initCleanup u = initCleanup t" "markerDeps u = markerDeps t"
    and icons: "defaultIcon u = Some (DivIcon Default n)" "highlightedIcon u = Some (DivIcon Highlighted n')"
    and m: "(mapInstanceRef u = None \<and> \<not> isMapInitialized u)
            \<or> (mapInstanceRef u \<noteq> None \<and> mapLayers u = [] \<and> isMapInitialized u)"
  shows "inv u"
proof -
  from t have tm: "inv_map t" and ti: "inv_init t" and ts: "inv_sync t" and tic: "inv_icons t"
    by (simp_all add: inv_def)
  from tm none have e: "markersRef t = []" "frames t = []" "syncCalls t = []" "\<not> isMapInitialized t"
    by (simp_all add: inv_map_def)
  have "inv_heap u = inv_heap t" by (rule inv_heap_cong) (simp_all add: u)
  moreover have "inv_frames u = inv_frames t" by (rule inv_frames_cong) (simp_all add: u)
  moreover have "inv_icons u" by (simp add: inv_icons_def u e icons)
  moreover have "inv_map u" using m by (auto simp add: inv_map_def u e icons mapLayers_def)
  moreover have "inv_init u" using ti un by (auto simp add: inv_init_def unmounted_def u)
  moreover have "inv_sync u" using ts m e by (auto simp add: inv_sync_def u)
  ultimately show ?thesis using t by (simp add: inv_def)
qed

lemma inv_initImport:
  assumes "inv s"
  shows "inv (initImport k ok L s)"
proof (cases "map_of (initAttempts s) k")
  case None
  with assms show ?thesis by (simp add: initImport_def)
next
  case (Some a)
  let ?t = "s\<lparr>initAttempts := filter (\<lambda>e. fst e \<noteq> k) (initAttempts s)\<rparr>"
  obtain mo ca c z where a: "a = (mo, ca, c, z)" by (cases a) auto
  have t: "inv ?t" using assms by (rule inv_drop_attempt)
  have e: "initImport k ok L s = initializeMap_resume ok L mo ca c z ?t"
    using Some a by (simp add: initImport_def)
  show ?thesis
  proof (cases "\<not> ok \<or> \<not> mo \<or> \<not> mapRef ?t \<or> ca \<or> \<not> divIcon_ok L")
    case True
    then show ?thesis
      using t by (auto simp add: e initializeMap_resume_cases inv_logs)
  next
    case False
    from assms have i: "inv_init s" and m: "inv_map s" by (simp_all add: inv_def)
    from False a have mo: "fst a" and nca: "\<not> fst (snd a)" by simp_all
    from mounted_attempt_unique [OF i Some mo] nca
    have un: "unmounted ?t" and ni: "\<not> isMapInitialized s" by auto
    from m ni have none: "mapInstanceRef ?t = None" by (auto simp add: inv_map_def)
    show ?thesis
      unfolding e initializeMap_resume_cases
      using False ni none
      by (auto intro!: inv_after_init [OF t un none] simp add: mapLayers_def)
  qed
qed

lemma inv_view:
  "inv (s\<lparr>mapInstanceRef := map_option (\<lambda>m. m\<lparr>view_calls := f m\<rparr>) (mapInstanceRef s)\<rparr>) = inv s"
proof -
  let ?t = "s\<lparr>mapInstanceRef := map_option (\<lambda>m. m\<lparr>view_calls := f m\<rparr>) (mapInstanceRef s)\<rparr>"
  have "inv_map ?t = inv_map s"
    by (rule inv_map_cong') (cases "mapInstanceRef s"; simp add: mapLayers_def)+
  then show ?thesis
    by (simp add: inv_def inv_heap_cong [of ?t s] inv_icons_cong [of ?t s] inv_init_cong [of ?t s]
        inv_sync_cong [of ?t s] inv_frames_cong [of ?t s])
qed

lemma inv_rebuilt:
  assumes i: "inv s" and m: "mapInstanceRef s = Some m" and d: "icon_variant d = Default"
  shows "inv (rebuilt d ps s)"
proof -
  let ?r = "rebuilt d ps s"
  let ?n = "nextHandle s"
  from i have im: "inv_map s" by (simp add: inv_def)
  have reg: "markersRef ?r = registered ps ?n []" and nh: "nextHandle ?r = ?n + length ps"
    by (simp_all add: rebuilt_eq)
  have hp: "heap ?r h = (if ?n \<le> h \<and> h < ?n + length ps then Some (newMarker d (ps ! (h - ?n))) else heap s h)" for h
    by (simp add: rebuilt_eq placedHeap_apply)
  have lay: "mapLayers ?r = filter (\<lambda>h. h \<notin> snd ` set (markersRef s)) (layers m) @ [?n..<?n + length ps]"
    using m by (simp add: rebuilt_eq mapLayers_def)
  have "inv_heap ?r"
    using rebuilt_wf [of d ps s] registered_handles [of _ ps ?n]
    by (auto simp add: inv_heap_def reg nh)
  moreover have "inv_map ?r"
  proof -
    have a: "mapInstanceRef ?r \<noteq> None" using m by (simp add: rebuilt_eq)
    have b: "h < nextHandle ?r \<and> (h \<in> snd ` set (markersRef ?r) \<or> variantOf ?r h = Some Default)"
      if "h \<in> set (mapLayers ?r)" for h
    proof (cases "?n \<le> h")
      case True
      from that have "h \<in> set (layers m) \<or> h < ?n + length ps"
        by (auto simp add: lay)
      moreover have "h' < ?n" if "h' \<in> set (layers m)" for h'
        using im m that by (simp add: inv_map_def mapLayers_def)
      ultimately have "h < ?n + length ps"
        using True by force
      with True show ?thesis
        by (simp add: nh variantOf_def hp newMarker_def d)
    next
      case False
      with that have "h \<in> set (layers m)" "h \<notin> snd ` set (markersRef s)" by (auto simp add: lay)
      with im m have "variantOf s h = Some Default" by (auto simp add: inv_map_def mapLayers_def)
      with False show ?thesis by (simp add: nh variantOf_def hp)
    qed
    from im m a b show ?thesis
      by (simp add: inv_map_def)
  qed
  ultimately show ?thesis
    using i
    by (simp add: inv_def inv_icons_cong [of ?r s] inv_init_cong [of ?r s]
        inv_sync_cong [of ?r s] inv_frames_cong [of ?r s])
qed

lemma updateMarkers_resume_forms:
  "updateMarkers_resume ok L ps d t = t\<lparr>console := console t @ [''Error updating markers:'']\<rparr>
   \<or> (\<exists>k. updateMarkers_resume ok L ps d t
          = (rebuilt d (take k ps) t)\<lparr>console := console t @ [''Error updating markers:'']\<rparr>)
   \<or> (sync_completes ok L ps d t
      \<and> (\<exists>vc. updateMarkers_resume ok L ps d t
          = (rebuilt d ps t)\<lparr>mapInstanceRef :=
               map_option (\<lambda>m. m\<lparr>view_calls := view_calls m @ vc\<rparr>) (mapInstanceRef (rebuilt d ps t))\<rparr>))"
proof (cases "updateMarkers_try ok L ps d t")
  case (Inl x)
  obtain e s' where x: "x = (e, s')" by (cases x)
  from updateMarkers_try_Inl [of ok L ps d t e s'] Inl x
  have "s' = t \<or> (\<exists>k. s' = rebuilt d (take k ps) t)" by simp
  moreover have "updateMarkers_resume ok L ps d t = s'\<lparr>console := console s' @ [''Error updating markers:'']\<rparr>"
    using Inl x by (simp add: updateMarkers_resume_def)
  ultimately show ?thesis by auto
next
  case (Inr s')
  then have c: "sync_completes ok L ps d t" by (simp add: sync_completes_def)
  from resume_form [OF c] c show ?thesis by blast
qed

lemma inv_drop_call:
  assumes "inv s"
  shows "inv (s\<lparr>syncCalls := filter (\<lambda>e. fst e \<noteq> k) (syncCalls s)\<rparr>)"
proof -
  let ?t = "s\<lparr>syncCalls := filter (\<lambda>e. fst e \<noteq> k) (syncCalls s)\<rparr>"
  from assms have a: "inv_sync s" "inv_icons s" "inv_map s" by (simp_all add: inv_def)
  have "inv_sync ?t" using a(1) by (auto simp add: inv_sync_def distinct_map_filter)
  moreover have "inv_icons ?t" using a(2) by (auto simp add: inv_icons_def)
  moreover have "inv_map ?t" using a(3) by (auto simp add: inv_map_def variantOf_def mapLayers_def)
  ultimately show ?thesis
    using assms
    by (simp add: inv_def inv_heap_cong [of ?t s] inv_init_cong [of ?t s] inv_frames_cong [of ?t s])
qed

lemma inv_syncImport:
  assumes "inv s"
  shows "inv (syncImport k ok L s)"
proof (cases "map_of (syncCalls s) k")
  case None
  with assms show ?thesis by (simp add: syncImport_def)
next
  case (Some a)
  let ?t = "s\<lparr>syncCalls := filter (\<lambda>e. fst e \<noteq> k) (syncCalls s)\<rparr>"
  obtain ps d where a: "a = (ps, d)" by (cases a)
  have t: "inv ?t" using assms by (rule inv_drop_call)
  from Some a have mem: "(k, ps, d) \<in> set (syncCalls s)" by (auto dest: map_of_SomeD)
  from assms have "inv_icons s" "inv_map s" by (simp_all add: inv_def)
  with mem have d: "icon_variant d = Default" and "mapInstanceRef s \<noteq> None"
    by (auto simp add: inv_icons_def inv_map_def)
  then obtain m where m: "mapInstanceRef ?t = Some m" by auto
  have e: "syncImport k ok L s = updateMarkers_resume ok L ps d ?t"
    using Some a by (simp add: syncImport_def)
  note r = inv_rebuilt [OF t m d]
  from updateMarkers_resume_forms [of ok L ps d ?t] show ?thesis
    unfolding e
  proof (elim disjE exE conjE)
    assume "updateMarkers_resume ok L ps d ?t = ?t\<lparr>console := console ?t @ [''Error updating markers:'']\<rparr>"
    with t show "inv (updateMarkers_resume ok L ps d ?t)" by (simp only: inv_logs)
  next
    fix j
    assume "updateMarkers_resume ok L ps d ?t
        = (rebuilt d (take j ps) ?t)\<lparr>console := console ?t @ [''Error updating markers:'']\<rparr>"
    with r [of "take j ps"] show "inv (updateMarkers_resume ok L ps d ?t)" by (simp only: inv_logs)
  next
    fix vc
    assume "updateMarkers_resume ok L ps d ?t
        = (rebuilt d ps ?t)\<lparr>mapInstanceRef :=
               map_option (\<lambda>m. m\<lparr>view_calls := view_calls m @ vc\<rparr>) (mapInstanceRef (rebuilt d ps ?t))\<rparr>"
    with r [of ps] show "inv (updateMarkers_resume ok L ps d ?t)" by (simp only: inv_view)
  qed
qed

lemma highlightMarker_heap:
  "heap (highlightMarker hov d hl s) =
     (case hov of
        None \<Rightarrow> resetHeap hov d (markersRef s) (heap s)
      | Some hid \<Rightarrow>
          if hid = [] then resetHeap hov d (markersRef s) (heap s)
          else (case map_of (markersRef s) hid of
                  None \<Rightarrow> resetHeap hov d (markersRef s) (heap s)
                | Some h \<Rightarrow>
                    (resetHeap hov d (markersRef s) (heap s))
                      (h := map_option (\<lambda>m. m\<lparr>m_icon := hl, m_popupOpen := True\<rparr>)
                              (resetHeap hov d (markersRef s) (heap s) h))))"
  by (simp add: highlightMarker_eq Let_def panTo_def openPopup_def setIcon_def option.map_comp comp_def
      split: option.splits)

lemma resetHeap_None: "(resetHeap hov d reg hp h = None) = (hp h = None)"
  by (simp add: resetHeap_def)

lemma resetHeap_unregistered: "h \<notin> snd ` set reg \<Longrightarrow> resetHeap hov d reg hp h = hp h"
  by (auto simp add: resetHeap_def)

lemma highlightMarker_heap_None:
  "(heap (highlightMarker hov d hl s) h = None) = (heap s h = None)"
  by (simp add: highlightMarker_heap resetHeap_None split: option.splits)

lemma highlightMarker_heap_unregistered:
  assumes "h \<notin> snd ` set (markersRef s)"
  shows "heap (highlightMarker hov d hl s) h = heap s h"
proof -
  have "map_of (markersRef s) hid \<noteq> Some h" for hid
    using map_of_SomeD [of "markersRef s" hid h] assms by force
  then show ?thesis
    by (auto simp add: highlightMarker_heap resetHeap_unregistered [OF assms] split: option.splits)
qed

lemma highlightMarker_map:
  "(mapInstanceRef (highlightMarker hov d hl s) = None) = (mapInstanceRef s = None)"
  "mapLayers (highlightMarker hov d hl s) = mapLayers s"
  by (simp_all add: highlightMarker_eq Let_def panTo_def openPopup_def setIcon_def mapLayers_def
      split: option.splits)

lemma inv_highlightMarker:
  assumes "inv s"
  shows "inv (highlightMarker hov d hl s)"
proof -
  let ?t = "highlightMarker hov d hl s"
  from assms have h: "inv_heap s" and m: "inv_map s" by (simp_all add: inv_def)
  have "inv_heap ?t"
    using h by (simp add: inv_heap_def registry_wf_def highlightMarker_heap_None)
  moreover have "inv_map ?t"
  proof -
    have "h \<in> snd ` set (markersRef s) \<or> variantOf ?t h = Some Default"
      if "h \<in> snd ` set (markersRef s) \<or> variantOf s h = Some Default" for h
      using that by (auto simp add: variantOf_def highlightMarker_heap_unregistered)
    with m show ?thesis
      by (simp add: inv_map_def highlightMarker_map)
  qed
  ultimately show ?thesis
    using assms
    by (simp add: inv_def inv_icons_cong [of ?t s] inv_init_cong [of ?t s]
        inv_sync_cong [of ?t s] inv_frames_cong [of ?t s])
qed

lemma inv_fold_highlight:
  "inv s \<Longrightarrow>
   inv (fold (\<lambda>e. highlightMarker (fst (snd e)) (fst (snd (snd e))) (snd (snd (snd e)))) fs s)"
  by (induction fs arbitrary: s) (simp_all add: inv_highlightMarker)

lemma inv_no_frames:
  assumes "inv s"
  shows "inv (s\<lparr>frames := []\<rparr>)"
proof -
  let ?t = "s\<lparr>frames := []\<rparr>"
  from assms have a: "inv_icons s" "inv_map s" by (simp_all add: inv_def)
  have "inv_frames ?t" by (simp add: inv_frames_def)
  moreover have "inv_icons ?t" using a(1) by (simp add: inv_icons_def)
  moreover have "inv_map ?t" using a(2) by (simp add: inv_map_def variantOf_def mapLayers_def)
  ultimately show ?thesis
    using assms
    by (simp add: inv_def inv_heap_cong [of ?t s] inv_init_cong [of ?t s] inv_sync_cong [of ?t s])
qed

lemma inv_animationFrame: "inv s \<Longrightarrow> inv (animationFrame s)"
  by (simp add: animationFrame_def inv_fold_highlight inv_no_frames)

lemma inv_step: "inv s \<Longrightarrow> inv (step e s)"
  by (cases e) (simp_all add: inv_render inv_initImport inv_syncImport inv_animationFrame)

lemma run_snoc: "run (evs @ [e]) s = step e (run evs s)"
  by (simp add: run_def)

lemma inv_run: "inv s \<Longrightarrow> inv (run evs s)"
  by (induction evs rule: rev_induct) (simp_all add: run_snoc inv_step, simp add: run_def)

lemma inv_reachable: "inv (run evs mounted)"
  by (rule inv_run) (rule inv_mounted)

section \<open>Initialization and the marker effect\<close>

lemma render_same [simp]:
  "mapRef (render ps pf c cf z hov s) = mapRef s"
  "mapInstanceRef (render ps pf c cf z hov s) = mapInstanceRef s"
  "markersRef (render ps pf c cf z hov s) = markersRef s"
  "defaultIcon (render ps pf c cf z hov s) = defaultIcon s"
  "highlightedIcon (render ps pf c cf z hov s) = highlightedIcon s"
  "isMapInitialized (render ps pf c cf z hov s) = isMapInitialized s"
  "heap (render ps pf c cf z hov s) = heap s"
  "nextHandle (render ps pf c cf z hov s) = nextHandle s"
  "nextIcon (render ps pf c cf z hov s) = nextIcon s"
  "console (render ps pf c cf z hov s) = console s"
  "toasts (render ps pf c cf z hov s) = toasts s"
  "uncaught (render ps pf c cf z hov s) = uncaught s"
  by (simp_all add: render_def Let_def)

lemma render_props [simp]:
  "places (render ps pf c cf z hov s) = ps"
  "hoveredPlaceId (render ps pf c cf z hov s) = hov"
  by (simp_all add: render_def Let_def)









section \<open>Hover highlighting\<close>

lemma render_hoverDeps:
  "hoverDeps (render ps pf c cf z hov s) = Some (hov, defaultIcon s, highlightedIcon s)"
  by (simp add: render_def Let_def hoverEffect_body_def split: option.splits)

lemma render_frames:
  assumes i: "inv s"
  shows "frames (render ps pf c cf z hov s) =
     (if hoverDeps s \<noteq> Some (hov, defaultIcon s, highlightedIcon s)
      then (case mapInstanceRef s of
              None \<Rightarrow> []
            | Some m \<Rightarrow>
                (case defaultIcon s of
                   None \<Rightarrow> []
                 | Some d \<Rightarrow>
                     (case highlightedIcon s of
                        None \<Rightarrow> []
                      | Some h \<Rightarrow> [(nextFrame s, hov, d, h)])))
      else frames s)"
proof -
  define ri where "ri = (cf \<or> c \<noteq> center s \<or> initDeps s \<noteq> Some (z, isMapInitialized s))"
  define rm where "rm = (pf \<or> markerDeps s \<noteq> Some (ps, defaultIcon s, isMapInitialized s))"
  define rh where "rh = (hoverDeps s \<noteq> Some (hov, defaultIcon s, highlightedIcon s))"
  define s0 where "s0 = s\<lparr>places := ps, center := c, zoom := z, hoveredPlaceId := hov\<rparr>"
  define s1 where "s1 = (if ri then initEffect_cleanup s0 else s0)"
  define s2 where "s2 = (if rh then hoverEffect_cleanup s1 else s1)"
  define s3 where "s3 = (if ri then initEffect_body s2 else s2)"
  define s4 where "s4 = (if rm then markerEffect_body s3 else s3)"
  have e: "render ps pf c cf z hov s = (if rh then hoverEffect_body s4 else s4)"
    by (simp add: render_def Let_def ri_def rm_def rh_def s0_def s1_def s2_def s3_def s4_def)
  have i0: "inv s0" using i by (simp add: s0_def inv_props)
  have i1: "inv s1" using i0 by (simp add: s1_def inv_initEffect_cleanup)
  have f2: "frames s2 = (if rh then [] else frames s)"
    using i1 by (simp add: s2_def inv_hoverEffect_cleanup s1_def s0_def)
  have f4: "frames s4 = (if rh then [] else frames s)"
    by (simp add: s4_def s3_def f2)
  have same: "mapInstanceRef s4 = mapInstanceRef s" "defaultIcon s4 = defaultIcon s"
    "highlightedIcon s4 = highlightedIcon s" "nextFrame s4 = nextFrame s" "hoveredPlaceId s4 = hov"
    by (simp_all add: s4_def s3_def s2_def s1_def s0_def)
  show ?thesis
    unfolding e rh_def [symmetric]
    by (simp add: hoverEffect_body_def Let_def f4 same split: option.splits)
qed

lemma animationFrame_single:
  "frames s = [(f, hov, d, h)] \<Longrightarrow> animationFrame s = highlightMarker hov d h (s\<lparr>frames := []\<rparr>)"
  by (simp add: animationFrame_def)

text \<open>
  Claim C4. In every reachable state with a live map and both icons: a render whose hover
  selection (or icons) differs from the last run of the hover effect changes no marker and
  not the map; it leaves exactly one animation-frame request pending, the one for the
  new selection, so that an older pending request is gone. When the selection goes to
  \<open>p1\<close> and then to a different \<open>p2\<close> before a frame fires, neither render changes a
  marker or the map, the only pending request is the one for \<open>p2\<close>, and the frame runs
  exactly one hover-highlight pass, for \<open>p2\<close>: afterwards no request is pending, every
  registered marker other than that of \<open>p2\<close> has the default icon and a closed popup,
  and the marker of \<open>p2\<close> (a non-empty identifier of a registered marker) has the
  highlighted icon and an open popup.
\<close>

theorem C4_hover_debounce:
  assumes s: "s = run evs mounted"
    and m: "mapInstanceRef s = Some m" and d: "defaultIcon s = Some d" and h: "highlightedIcon s = Some h"
  shows
    "(hoverDeps s \<noteq> Some (hov, Some d, Some h) \<longrightarrow>
        frames (render ps pf c cf z hov s) = [(nextFrame s, hov, d, h)]
      \<and> heap (render ps pf c cf z hov s) = heap s
      \<and> mapInstanceRef (render ps pf c cf z hov s) = Some m
      \<and> markersRef (render ps pf c cf z hov s) = markersRef s)
     \<and> (p1 \<noteq> p2 \<longrightarrow>
        (let s1 = render ps pf c cf z (Some p1) s;
             s2 = render ps' pf' c' cf' z' (Some p2) s1;
             s3 = animationFrame s2
         in heap s1 = heap s \<and> heap s2 = heap s
          \<and> mapInstanceRef s1 = Some m \<and> mapInstanceRef s2 = Some m
          \<and> map snd (frames s2) = [(Some p2, d, h)]
          \<and> s3 = highlightMarker (Some p2) d h (s2\<lparr>frames := []\<rparr>)
          \<and> frames s3 = []
          \<and> (\<forall>e\<in>set (markersRef s). fst e \<noteq> p2 \<longrightarrow>
                iconOf s3 (snd e) = Some d \<and> popupOpenOf s3 (snd e) = Some False)
          \<and> (\<forall>h2. p2 \<noteq> [] \<and> (p2, h2) \<in> set (markersRef s) \<longrightarrow>
                iconOf s3 h2 = Some h \<and> popupOpenOf s3 h2 = Some True)))"
proof -
  have i: "inv s" unfolding s by (rule inv_reachable)
  have A: "hoverDeps s \<noteq> Some (hov, Some d, Some h) \<Longrightarrow>
        frames (render ps pf c cf z hov s) = [(nextFrame s, hov, d, h)]
      \<and> heap (render ps pf c cf z hov s) = heap s
      \<and> mapInstanceRef (render ps pf c cf z hov s) = Some m
      \<and> markersRef (render ps pf c cf z hov s) = markersRef s"
    by (simp add: render_frames [OF i] m d h)
  have B: "p1 \<noteq> p2 \<Longrightarrow>
        (let s1 = render ps pf c cf z (Some p1) s;
             s2 = render ps' pf' c' cf' z' (Some p2) s1;
             s3 = animationFrame s2
         in heap s1 = heap s \<and> heap s2 = heap s
          \<and> mapInstanceRef s1 = Some m \<and> mapInstanceRef s2 = Some m
          \<and> map snd (frames s2) = [(Some p2, d, h)]
          \<and> s3 = highlightMarker (Some p2) d h (s2\<lparr>frames := []\<rparr>)
          \<and> frames s3 = []
          \<and> (\<forall>e\<in>set (markersRef s). fst e \<noteq> p2 \<longrightarrow>
                iconOf s3 (snd e) = Some d \<and> popupOpenOf s3 (snd e) = Some False)
          \<and> (\<forall>h2. p2 \<noteq> [] \<and> (p2, h2) \<in> set (markersRef s) \<longrightarrow>
                iconOf s3 h2 = Some h \<and> popupOpenOf s3 h2 = Some True))"
  proof -
    assume ne: "p1 \<noteq> p2"
    define s1 where "s1 = render ps pf c cf z (Some p1) s"
    define s2 where "s2 = render ps' pf' c' cf' z' (Some p2) s1"
    define t where "t = s2\<lparr>frames := []\<rparr>"
    define s3 where "s3 = animationFrame s2"
    have i1: "inv s1" unfolding s1_def using i by (rule inv_render)
    have i2: "inv s2" unfolding s2_def using i1 by (rule inv_render)
    have e1: "heap s1 = heap s" "mapInstanceRef s1 = Some m" "markersRef s1 = markersRef s"
      "defaultIcon s1 = Some d" "highlightedIcon s1 = Some h"
      by (simp_all add: s1_def m d h)
    have e2: "heap s2 = heap s" "mapInstanceRef s2 = Some m" "markersRef s2 = markersRef s"
      by (simp_all add: s2_def e1)
    have deps: "hoverDeps s1 = Some (Some p1, Some d, Some h)"
      by (simp add: s1_def render_hoverDeps d h)
    have f2: "frames s2 = [(nextFrame s1, Some p2, d, h)]"
      using ne by (simp add: s2_def render_frames [OF i1] deps e1)
    have e3: "s3 = highlightMarker (Some p2) d h t"
      unfolding s3_def t_def by (rule animationFrame_single [OF f2])
    have f3: "frames s3 = []"
      by (simp add: e3 t_def)
    from i2 have "registry_wf s2" by (simp add: inv_def inv_heap_def)
    then have wf: "registry_wf t" by (simp add: registry_wf_def t_def)
    have tm: "mapInstanceRef t = Some m" and tr: "markersRef t = markersRef s"
      by (simp_all add: t_def e2)
    have others: "iconOf s3 (snd e) = Some d \<and> popupOpenOf s3 (snd e) = Some False"
      if "e \<in> set (markersRef s)" "fst e \<noteq> p2" for e
      using highlight_others [OF wf, of "fst e" "snd e" "Some p2" d h] that
      by (simp add: e3 tr)
    have sel: "iconOf s3 h2 = Some h \<and> popupOpenOf s3 h2 = Some True"
      if "p2 \<noteq> []" "(p2, h2) \<in> set (markersRef s)" for h2
    proof -
      from wf that(2) obtain mk where mk: "heap t h2 = Some mk"
        by (auto simp add: registry_wf_def tr)
      from that(2) have reg: "(p2, h2) \<in> set (markersRef t)" by (simp add: tr)
      from highlight_selected [OF wf tm reg that(1) mk, of d h] show ?thesis
        by (simp add: e3)
    qed
    have "heap s1 = heap s \<and> heap s2 = heap s
          \<and> mapInstanceRef s1 = Some m \<and> mapInstanceRef s2 = Some m
          \<and> map snd (frames s2) = [(Some p2, d, h)]
          \<and> s3 = highlightMarker (Some p2) d h (s2\<lparr>frames := []\<rparr>)
          \<and> frames s3 = []
          \<and> (\<forall>e\<in>set (markersRef s). fst e \<noteq> p2 \<longrightarrow>
                iconOf s3 (snd e) = Some d \<and> popupOpenOf s3 (snd e) = Some False)
          \<and> (\<forall>h2. p2 \<noteq> [] \<and> (p2, h2) \<in> set (markersRef s) \<longrightarrow>
                iconOf s3 h2 = Some h \<and> popupOpenOf s3 h2 = Some True)"
      using e1(1,2) e2(1,2) f2 e3 f3 others sel unfolding t_def by auto
    then show ?thesis
      unfolding Let_def s1_def s2_def s3_def .
  qed
  show ?thesis
    by (rule conjI [OF impI [OF A] impI [OF B]])
qed

lemma shown_icons:
  "defaultIcon shown = Some (DivIcon Default 0)"
  "highlightedIcon shown = Some (DivIcon Highlighted 1)"
  "hoverDeps shown = Some (None, Some (DivIcon Default 0), Some (DivIcon Highlighted 1))"
  "nextFrame shown = 1"
  by (simp_all add: shown_def model_defs all_ok_def)

text \<open>
  On the map that shows \<open>p1\<close> and \<open>p2\<close>: the pointer goes to \<open>p1\<close>, then to \<open>p2\<close>, then
  a frame fires.
\<close>

theorem C4_witness:
  "shown = run [Render [place1, place2] True default_center True 12 None,
                InitImport 0 True all_ok,
                Render [place1, place2] False default_center True 12 None,
                SyncImport 2 True all_ok] mounted
   \<and> mapInstanceRef shown =
       Some \<lparr>layers = [0, 1],
              view_calls = [SetView default_center 12, FitBounds ((22, 72), (23, 73)) (50, 50)],
              tileLayer = True, containerClass = True, zoomControl = True\<rparr>
   \<and> defaultIcon shown = Some (DivIcon Default 0)
   \<and> highlightedIcon shown = Some (DivIcon Highlighted 1)
   \<and> hoverDeps shown \<noteq> Some (Some ''p1'', Some (DivIcon Default 0), Some (DivIcon Highlighted 1))
   \<and> frames (render [place1, place2] False default_center True 12 (Some ''p1'') shown)
       = [(1, Some ''p1'', DivIcon Default 0, DivIcon Highlighted 1)]
   \<and> heap (render [place1, place2] False default_center True 12 (Some ''p1'') shown) = heap shown
   \<and> ''p1'' \<noteq> ''p2''
   \<and> frames (animationFrame (render [place1, place2] False default_center True 12 (Some ''p2'')
         (render [place1, place2] False default_center True 12 (Some ''p1'') shown))) = []
   \<and> iconOf (animationFrame (render [place1, place2] False default_center True 12 (Some ''p2'')
         (render [place1, place2] False default_center True 12 (Some ''p1'') shown))) 1
       = Some (DivIcon Highlighted 1)
   \<and> popupOpenOf (animationFrame (render [place1, place2] False default_center True 12 (Some ''p2'')
         (render [place1, place2] False default_center True 12 (Some ''p1'') shown))) 1
       = Some True
   \<and> iconOf (animationFrame (render [place1, place2] False default_center True 12 (Some ''p2'')
         (render [place1, place2] False default_center True 12 (Some ''p1'') shown))) 0
       = Some (DivIcon Default 0)
   \<and> popupOpenOf (animationFrame (render [place1, place2] False default_center True 12 (Some ''p2'')
         (render [place1, place2] False default_center True 12 (Some ''p1'') shown))) 0
       = Some False"
proof -
  note T = C4_hover_debounce [where hov = "Some ''p1''" and ps = "[place1, place2]" and pf = False
      and c = default_center and cf = True and z = 12 and ps' = "[place1, place2]" and pf' = False
      and c' = default_center and cf' = True and z' = 12 and ?p1.0 = "''p1''" and ?p2.0 = "''p2''",
      OF shown_def shown_mapInstanceRef shown_icons(1) shown_icons(2)]
  have g1: "hoverDeps shown \<noteq> Some (Some ''p1'', Some (DivIcon Default 0), Some (DivIcon Highlighted 1))"
    by (simp add: shown_icons)
  have g2: "''p1'' \<noteq> ''p2''" by simp
  note A = T [THEN conjunct1, THEN mp, OF g1]
  note B = T [THEN conjunct2, THEN mp, OF g2, unfolded Let_def]
  have a1: "frames (render [place1, place2] False default_center True 12 (Some ''p1'') shown)
       = [(1, Some ''p1'', DivIcon Default 0, DivIcon Highlighted 1)]"
    using A [THEN conjunct1] by (simp only: shown_icons(4))
  have a2: "heap (render [place1, place2] False default_center True 12 (Some ''p1'') shown) = heap shown"
    by (rule A [THEN conjunct2, THEN conjunct1])
  note B7 = B [THEN conjunct2, THEN conjunct2, THEN conjunct2, THEN conjunct2, THEN conjunct2,
      THEN conjunct2]
  have b1: "frames (animationFrame (render [place1, place2] False default_center True 12 (Some ''p2'')
         (render [place1, place2] False default_center True 12 (Some ''p1'') shown))) = []"
    by (rule B7 [THEN conjunct1])
  have b2: "iconOf (animationFrame (render [place1, place2] False default_center True 12 (Some ''p2'')
         (render [place1, place2] False default_center True 12 (Some ''p1'') shown))) 0
       = Some (DivIcon Default 0)
     \<and> popupOpenOf (animationFrame (render [place1, place2] False default_center True 12 (Some ''p2'')
         (render [place1, place2] False default_center True 12 (Some ''p1'') shown))) 0
       = Some False"
    using B7 [THEN conjunct2, THEN conjunct1] by (simp add: shown_markersRef)
  have b3: "iconOf (animationFrame (render [place1, place2] False default_center True 12 (Some ''p2'')
         (render [place1, place2] False default_center True 12 (Some ''p1'') shown))) 1
       = Some (DivIcon Highlighted 1)
     \<and> popupOpenOf (animationFrame (render [place1, place2] False default_center True 12 (Some ''p2'')
         (render [place1, place2] False default_center True 12 (Some ''p1'') shown))) 1
       = Some True"
    using B7 [THEN conjunct2, THEN conjunct2] by (simp add: shown_markersRef)
  note facts = shown_def shown_mapInstanceRef shown_icons(1) shown_icons(2) g1 a1 a2 g2 b1
    b3 [THEN conjunct1] b3 [THEN conjunct2] b2 [THEN conjunct1] b2 [THEN conjunct2]
  show ?thesis
    by (intro conjI; (rule facts))
qed


lemma all_default_cong:
  "mapLayers s' = mapLayers s \<Longrightarrow> heap s' = heap s \<Longrightarrow> all_default s' = all_default s"
  by (simp add: all_default_def variantOf_def)













section \<open>Failures of initialization and of the marker pass\<close>

















end
